theory Spec2Isabelle
  imports Complex_Main "HOL-Library.Word"
begin

section \<open>Looper state machine (sampler\_state\_machine.h)\<close>

text \<open>
  The two enum classes of the header, in the order of their declaration.
\<close>

datatype LooperState = IDLE | RECORDING_INITIAL | PLAYING | OVERDUBBING | PAUSED

datatype LooperEvent =
  PRESS_REC | RELEASE_REC | PRESS_PLAY | PRESS_STOP | PRESS_PAUSE | LOOP_ENDED | CLEAR_LOOP

text \<open>
  The object holds the current and the previous state. The constructor puts both at
  \<open>IDLE\<close>.
\<close>

record LooperStateMachine =
  current_state :: LooperState
  previous_state :: LooperState

definition LooperStateMachine_new :: LooperStateMachine where
  "LooperStateMachine_new = \<lparr>current_state = IDLE, previous_state = IDLE\<rparr>"

text \<open>
  \<open>CanTransition\<close>: the early return for \<open>IDLE\<close> comes first, then the switch on the
  source state.
\<close>

fun CanTransition :: "LooperState \<Rightarrow> LooperState \<Rightarrow> bool" where
  "CanTransition from to =
     (if to = IDLE then True
      else (case from of
              IDLE \<Rightarrow> to = RECORDING_INITIAL
            | RECORDING_INITIAL \<Rightarrow> (to = PLAYING \<or> to = IDLE)
            | PLAYING \<Rightarrow> (to = OVERDUBBING \<or> to = PAUSED \<or> to = IDLE)
            | OVERDUBBING \<Rightarrow> (to = PLAYING \<or> to = IDLE)
            | PAUSED \<Rightarrow> (to = PLAYING \<or> to = IDLE)))"

text \<open>
  \<open>GetNextState\<close>: a switch on the current state with an if-chain on the event in every
  case; a case that matches no event breaks out of the switch and falls to the final
  \<open>return current\<close>.
\<close>

fun GetNextState :: "LooperState \<Rightarrow> LooperEvent \<Rightarrow> LooperState" where
  "GetNextState current event =
     (case current of
        IDLE \<Rightarrow>
          (if event = PRESS_REC then RECORDING_INITIAL else current)
      | RECORDING_INITIAL \<Rightarrow>
          (if event = RELEASE_REC then PLAYING
           else if event = PRESS_STOP then IDLE
           else current)
      | PLAYING \<Rightarrow>
          (if event = PRESS_REC then OVERDUBBING
           else if event = PRESS_PAUSE then PAUSED
           else if event = PRESS_STOP \<or> event = CLEAR_LOOP then IDLE
           else current)
      | OVERDUBBING \<Rightarrow>
          (if event = RELEASE_REC then PLAYING
           else if event = PRESS_STOP then IDLE
           else current)
      | PAUSED \<Rightarrow>
          (if event = PRESS_PLAY \<or> event = PRESS_PAUSE then PLAYING
           else if event = PRESS_STOP \<or> event = CLEAR_LOOP then IDLE
           else current))"

text \<open>
  \<open>OnEnter\<close> and \<open>OnExit\<close> are virtual with empty bodies in this class; they change
  nothing of the machine.
\<close>

definition OnEnter :: "LooperState \<Rightarrow> LooperStateMachine \<Rightarrow> LooperStateMachine" where
  "OnEnter st m = m"

definition OnExit :: "LooperState \<Rightarrow> LooperStateMachine \<Rightarrow> LooperStateMachine" where
  "OnExit st m = m"

text \<open>
  \<open>TransitionTo\<close> and \<open>ProcessEvent\<close> return the boolean result together with the
  machine after the call.
\<close>

definition TransitionTo :: "LooperState \<Rightarrow> LooperStateMachine \<Rightarrow> bool \<times> LooperStateMachine" where
  "TransitionTo new_state m =
     (if \<not> CanTransition (current_state m) new_state then (False, m)
      else
        let m1 = OnExit (current_state m) m;
            m2 = m1\<lparr>previous_state := current_state m1\<rparr>;
            m3 = m2\<lparr>current_state := new_state\<rparr>
        in (True, OnEnter new_state m3))"

definition ProcessEvent :: "LooperEvent \<Rightarrow> LooperStateMachine \<Rightarrow> bool \<times> LooperStateMachine" where
  "ProcessEvent event m =
     (let new_state = GetNextState (current_state m) event
      in if new_state = current_state m then (False, m)
         else TransitionTo new_state m)"

definition Reset :: "LooperStateMachine \<Rightarrow> LooperStateMachine" where
  "Reset m = snd (TransitionTo IDLE m)"

text \<open>
  The event table of the specification (section 4.1), written from its rows: the listed
  pairs give their successor, every other pair gives nothing.
\<close>

fun spec_event_table :: "LooperState \<Rightarrow> LooperEvent \<Rightarrow> LooperState option" where
  "spec_event_table IDLE PRESS_REC = Some RECORDING_INITIAL"
| "spec_event_table RECORDING_INITIAL RELEASE_REC = Some PLAYING"
| "spec_event_table RECORDING_INITIAL PRESS_STOP = Some IDLE"
| "spec_event_table PLAYING PRESS_REC = Some OVERDUBBING"
| "spec_event_table PLAYING PRESS_PAUSE = Some PAUSED"
| "spec_event_table PLAYING PRESS_STOP = Some IDLE"
| "spec_event_table PLAYING CLEAR_LOOP = Some IDLE"
| "spec_event_table OVERDUBBING RELEASE_REC = Some PLAYING"
| "spec_event_table OVERDUBBING PRESS_STOP = Some IDLE"
| "spec_event_table PAUSED PRESS_PLAY = Some PLAYING"
| "spec_event_table PAUSED PRESS_PAUSE = Some PLAYING"
| "spec_event_table PAUSED PRESS_STOP = Some IDLE"
| "spec_event_table PAUSED CLEAR_LOOP = Some IDLE"
| "spec_event_table _ _ = None"

section \<open>Machine values and faults\<close>

text \<open>
  The target is a 32-bit ARM core, so \<open>size_t\<close> is an unsigned 32-bit word whose
  arithmetic wraps around; \<open>uint8_t\<close> is an 8-bit word.

  Behaviour that C++ leaves undefined is a value of type \<open>fault\<close>: an access outside a
  memory block, an integer division or remainder by zero, and the conversion to
  \<open>size_t\<close> of a \<open>float\<close> whose truncation is not a \<open>size_t\<close> value.
\<close>

type_synonym size_t = "32 word"

type_synonym uint8_t = "8 word"

datatype fault = OutOfBounds | DivByZero | FloatToSizeRange

definition bindF :: "fault + 'a \<Rightarrow> ('a \<Rightarrow> fault + 'b) \<Rightarrow> fault + 'b" where
  "bindF m f = (case m of Inl e \<Rightarrow> Inl e | Inr x \<Rightarrow> f x)"

text \<open>
  A C++ \<open>float\<close> is an IEEE 754 single-precision number: 24 significant bits, the
  smallest exponent \<open>-126\<close> (below it the numbers are subnormal, spaced \<open>2^-149\<close>
  apart). Its value is kept as a real number, and the result of every \<open>float\<close> operation
  is rounded to the nearest single, ties to the even significand, by \<open>float_round\<close>:
  \<open>float_exponent x\<close> is the exponent of the binade of \<open>x\<close> and \<open>2^(float_exponent x - 23)\<close>
  the spacing of the singles there. Each operation is rounded on its own (no fused
  multiply-add). Infinities and NaN are not represented: a number is expected wherever
  the source takes a \<open>float\<close>, and a result that rounds beyond the largest single, where
  the source has an infinity, stays a real number of magnitude at least \<open>2^128\<close>.
  \<open>is_float x\<close> says that \<open>x\<close> is the value of a single.
\<close>

definition round_half_even :: "real \<Rightarrow> int" where
  "round_half_even x =
     (let f = \<lfloor>x\<rfloor>; d = x - of_int f
      in if d < 1 / 2 then f else if 1 / 2 < d then f + 1
         else if even f then f else f + 1)"

definition float_exponent :: "real \<Rightarrow> int" where
  "float_exponent x = max \<lfloor>log 2 \<bar>x\<bar>\<rfloor> (- 126)"

definition float_round :: "real \<Rightarrow> real" where
  "float_round x =
     (if x = 0 then 0
      else let u = 2 powr (of_int (float_exponent x) - 23)
           in of_int (round_half_even (x / u)) * u)"

definition is_float :: "real \<Rightarrow> bool" where
  "is_float x = (float_round x = x)"

definition float_add :: "real \<Rightarrow> real \<Rightarrow> real" where
  "float_add x y = float_round (x + y)"

definition float_sub :: "real \<Rightarrow> real \<Rightarrow> real" where
  "float_sub x y = float_round (x - y)"

definition float_mul :: "real \<Rightarrow> real \<Rightarrow> real" where
  "float_mul x y = float_round (x * y)"

definition float_div :: "real \<Rightarrow> real \<Rightarrow> real" where
  "float_div x y = float_round (x / y)"

text \<open>\<open>static_cast<float>(n)\<close> for a \<open>size_t\<close>, which rounds above \<open>2^24\<close>, and
  \<open>static_cast<size_t>(x)\<close> for a \<open>float\<close>, which truncates towards zero.\<close>

definition size_to_float :: "size_t \<Rightarrow> real" where
  "size_to_float n = float_round (real (unat n))"

definition float_to_size :: "real \<Rightarrow> fault + size_t" where
  "float_to_size x =
     (let t = (if 0 \<le> x then \<lfloor>x\<rfloor> else \<lceil>x\<rceil>)
      in if 0 \<le> t \<and> t < 2 ^ 32 then Inr (word_of_int t) else Inl FloatToSizeRange)"

text \<open>
  \<open>memset\<close> and \<open>memcpy\<close> take a byte count, computed in the source as
  \<open>sizeof(float) * n\<close> in \<open>size_t\<close>; a \<open>float\<close> is four bytes, so the number of
  samples touched is that byte count divided by four. \<open>memcpy_floats dst src off n\<close>
  copies from \<open>src + off\<close> to the start of \<open>dst\<close>.
\<close>

definition sizeof_float :: size_t where
  "sizeof_float = 4"

definition memset_zero :: "real list \<Rightarrow> size_t \<Rightarrow> fault + real list" where
  "memset_zero mem nbytes =
     (let n = unat nbytes div 4
      in if n \<le> length mem then Inr (replicate n 0 @ drop n mem) else Inl OutOfBounds)"

definition memcpy_floats :: "real list \<Rightarrow> real list \<Rightarrow> nat \<Rightarrow> size_t \<Rightarrow> fault + real list" where
  "memcpy_floats dst src off nbytes =
     (let n = unat nbytes div 4
      in if off + n \<le> length src \<and> n \<le> length dst
         then Inr (take n (drop off src) @ drop n dst)
         else Inl OutOfBounds)"

section \<open>Clock and tempo (sampler\_sync.h)\<close>

record ClockSync =
  bpm_clk :: real
  time_sig_numerator :: uint8_t
  time_sig_denominator :: uint8_t
  sample_rate :: real
  samples_per_beat_clk :: size_t
  samples_per_bar :: size_t
  sample_counter :: size_t
  beat_counter :: uint8_t

text \<open>
  \<open>CalculateTimings\<close>: the product and the quotient are computed in \<open>float\<close>, and the
  quotient is cast to \<open>size_t\<close>. With a zero tempo the \<open>float\<close> quotient is an infinity or
  NaN, whose cast is undefined.
\<close>

definition CalculateTimings :: "ClockSync \<Rightarrow> fault + ClockSync" where
  "CalculateTimings c =
     (if bpm_clk c = 0 then Inl FloatToSizeRange
      else bindF (float_to_size (float_div (float_mul (sample_rate c) 60) (bpm_clk c))) (\<lambda>spb.
        let c1 = c\<lparr>samples_per_beat_clk := spb\<rparr>
        in Inr (c1\<lparr>samples_per_bar :=
                  samples_per_beat_clk c1 * ucast (time_sig_numerator c1)\<rparr>)))"

definition ClockSync_new :: "fault + ClockSync" where
  "ClockSync_new =
     CalculateTimings
       \<lparr>bpm_clk = 120, time_sig_numerator = 4, time_sig_denominator = 4,
        sample_rate = 48000, samples_per_beat_clk = 0, samples_per_bar = 0,
        sample_counter = 0, beat_counter = 0\<rparr>"

definition SetBPM :: "real \<Rightarrow> ClockSync \<Rightarrow> fault + ClockSync" where
  "SetBPM bpm c =
     (if bpm \<le> 0 then Inr c
      else CalculateTimings (c\<lparr>bpm_clk := bpm\<rparr>))"

definition SetSampleRate :: "real \<Rightarrow> ClockSync \<Rightarrow> fault + ClockSync" where
  "SetSampleRate sr c =
     (if sr \<le> 0 then Inr c
      else CalculateTimings (c\<lparr>sample_rate := sr\<rparr>))"

definition SetTimeSignature :: "uint8_t \<Rightarrow> uint8_t \<Rightarrow> ClockSync \<Rightarrow> fault + ClockSync" where
  "SetTimeSignature numerator denominator c =
     (if numerator = 0 \<or> denominator = 0 then Inr c
      else CalculateTimings
             (c\<lparr>time_sig_numerator := numerator, time_sig_denominator := denominator\<rparr>))"

definition Tick :: "ClockSync \<Rightarrow> ClockSync" where
  "Tick c =
     (let c1 = c\<lparr>sample_counter := sample_counter c + 1\<rparr>
      in if 0 < samples_per_beat_clk c1 \<and> samples_per_beat_clk c1 \<le> sample_counter c1
         then
           let c2 = c1\<lparr>sample_counter := 0, beat_counter := beat_counter c1 + 1\<rparr>
           in if time_sig_numerator c2 \<le> beat_counter c2
              then c2\<lparr>beat_counter := 0\<rparr> else c2
         else c1)"

definition SnapToNearestBeat :: "size_t \<Rightarrow> ClockSync \<Rightarrow> size_t" where
  "SnapToNearestBeat sample_position c =
     (if samples_per_beat_clk c = 0 then sample_position
      else
        let beat_number =
              (sample_position + samples_per_beat_clk c div 2) div samples_per_beat_clk c
        in beat_number * samples_per_beat_clk c)"

section \<open>Loop engine (sampler\_engine.h)\<close>

definition CROSSFADE_SAMPLES :: size_t where
  "CROSSFADE_SAMPLES = 128"

definition MAX_UNDO_LEVELS :: size_t where
  "MAX_UNDO_LEVELS = 3"

text \<open>
  The object. \<open>buffer\<close> is the memory block behind the pointer \<open>_buffer\<close> (its length is
  what was really allocated, \<open>buffer_length\<close> is what \<open>Init\<close> was told);
  \<open>undo_buffers\<close> lists the memory blocks behind the pointers of the array
  \<open>_undo_buffers\<close>, which are distinct from each other and from the main buffer, as
  the static arrays of the sketch are.
\<close>

record OverdubLooper =
  buffer :: "real list"
  buffer_length :: size_t
  loop_start :: size_t
  loop_length :: size_t
  play_head :: real
  rec_head :: size_t
  is_empty :: bool
  is_recording :: bool
  reverse :: bool
  overdubbing :: bool
  playback_speed :: real
  quantize :: bool
  quantize_beats :: size_t
  bpm :: real
  samples_per_beat :: size_t
  inv_buffer_length :: real
  inv_crossfade_samples :: real
  undo_buffers :: "real list list"
  undo_enabled :: bool
  undo_count :: size_t
  undo_write_index :: size_t
  undo_read_index :: size_t
  undo_depth :: size_t
  redo_depth :: size_t

text \<open>
  The sketch declares the looper as a static object: every member without an
  initialiser starts at zero, the others at their default member initialiser.
\<close>

definition OverdubLooper_static :: OverdubLooper where
  "OverdubLooper_static =
     \<lparr>buffer = [], buffer_length = 0, loop_start = 0, loop_length = 0, play_head = 0,
      rec_head = 0, is_empty = False, is_recording = False, reverse = False,
      overdubbing = False, playback_speed = 0, quantize = False, quantize_beats = 4,
      bpm = 120, samples_per_beat = 0, inv_buffer_length = 0, inv_crossfade_samples = 0,
      undo_buffers = [[], [], []], undo_enabled = False, undo_count = 0,
      undo_write_index = 0, undo_read_index = 0, undo_depth = 0, redo_depth = 0\<rparr>"

text \<open>
  \<open>Init\<close>. A null \<open>undo_bufs\<close> is \<open>None\<close>. The loop copies the first \<open>_undo_count\<close>
  pointers of the caller's array. With a zero \<open>length\<close> the source stores an infinity in
  \<open>_inv_buffer_length\<close>; the quotient here is only read by \<open>GetPlayhead\<close>.
\<close>

definition Init ::
  "real list \<Rightarrow> size_t \<Rightarrow> real list list option \<Rightarrow> size_t \<Rightarrow> OverdubLooper
     \<Rightarrow> fault + OverdubLooper" where
  "Init buf len undo_bufs num_undo_levels s =
     (let s1 = s\<lparr>buffer := buf, buffer_length := len\<rparr>;
          disabled = s1\<lparr>undo_enabled := False, undo_count := 0\<rparr>;
          r = (case undo_bufs of
                 None \<Rightarrow> Inr disabled
               | Some ubs \<Rightarrow>
                   if 0 < num_undo_levels then
                     let cnt = (if num_undo_levels \<le> MAX_UNDO_LEVELS
                                then num_undo_levels else MAX_UNDO_LEVELS)
                     in if unat cnt \<le> length ubs
                        then Inr (s1\<lparr>undo_enabled := True, undo_count := cnt,
                                    undo_buffers :=
                                      take (unat cnt) ubs @ drop (unat cnt) (undo_buffers s1)\<rparr>)
                        else Inl OutOfBounds
                   else Inr disabled)
      in bindF r (\<lambda>s2.
         bindF (memset_zero (buffer s2) (sizeof_float * buffer_length s2)) (\<lambda>b.
           Inr (s2\<lparr>buffer := b,
                   inv_buffer_length := float_div 1 (size_to_float (buffer_length s2)),
                   inv_crossfade_samples := float_div 1 (size_to_float CROSSFADE_SAMPLES),
                   is_empty := True, reverse := False, playback_speed := 1\<rparr>))))"

text \<open>Reading and writing \<open>_buffer[i]\<close>.\<close>

definition read_buffer :: "OverdubLooper \<Rightarrow> size_t \<Rightarrow> fault + real" where
  "read_buffer s i =
     (if unat i < length (buffer s) then Inr (buffer s ! unat i) else Inl OutOfBounds)"

definition write_buffer :: "OverdubLooper \<Rightarrow> size_t \<Rightarrow> real \<Rightarrow> fault + OverdubLooper" where
  "write_buffer s i v =
     (if unat i < length (buffer s) then Inr (s\<lparr>buffer := (buffer s)[unat i := v]\<rparr>)
      else Inl OutOfBounds)"

definition StartRecording :: "OverdubLooper \<Rightarrow> OverdubLooper" where
  "StartRecording s =
     s\<lparr>rec_head := 0, play_head := 0, is_empty := False, is_recording := True,
       overdubbing := False\<rparr>"

text \<open>
  \<open>ApplyCrossfade\<close>: the blend \<open>a * fade + b * (1.0f - fade)\<close>, the body of the \<open>for\<close> loop
  for one value of \<open>i\<close>, and the loop over \<open>i = 0, ..., CROSSFADE_SAMPLES - 1\<close>. The buffer
  is updated in place, so a later iteration reads what an earlier one wrote.
\<close>

definition crossfade_blend :: "real \<Rightarrow> real \<Rightarrow> real \<Rightarrow> real" where
  "crossfade_blend a b fade = float_add (float_mul a fade) (float_mul b (float_sub 1 fade))"

definition crossfade_step :: "size_t \<Rightarrow> OverdubLooper \<Rightarrow> fault + OverdubLooper" where
  "crossfade_step i s =
     (let fade = float_mul (size_to_float i) (inv_crossfade_samples s)
      in if buffer_length s = 0 then Inl DivByZero
         else
           let start_idx = (loop_start s + i) mod buffer_length s;
               end_idx = (loop_start s + loop_length s - CROSSFADE_SAMPLES + i)
                           mod buffer_length s
           in bindF (read_buffer s start_idx) (\<lambda>a.
              bindF (read_buffer s end_idx) (\<lambda>b.
                write_buffer s start_idx (crossfade_blend a b fade))))"

fun crossfade_loop :: "size_t list \<Rightarrow> OverdubLooper \<Rightarrow> fault + OverdubLooper" where
  "crossfade_loop [] s = Inr s"
| "crossfade_loop (i # is) s = bindF (crossfade_step i s) (crossfade_loop is)"

definition ApplyCrossfade :: "OverdubLooper \<Rightarrow> fault + OverdubLooper" where
  "ApplyCrossfade s =
     (if loop_length s < CROSSFADE_SAMPLES * 2 then Inr s
      else crossfade_loop (map of_nat [0..<unat CROSSFADE_SAMPLES]) s)"

definition StopRecording :: "OverdubLooper \<Rightarrow> fault + OverdubLooper" where
  "StopRecording s = ApplyCrossfade (s\<lparr>is_recording := False\<rparr>)"

definition StopOverdub :: "OverdubLooper \<Rightarrow> OverdubLooper" where
  "StopOverdub s = s\<lparr>overdubbing := False\<rparr>"

definition Restart :: "OverdubLooper \<Rightarrow> OverdubLooper" where
  "Restart s = s\<lparr>play_head := 0\<rparr>"

definition SetLoopRegion :: "size_t \<Rightarrow> size_t \<Rightarrow> OverdubLooper \<Rightarrow> OverdubLooper" where
  "SetLoopRegion start_sample end_sample s =
     (let s1 = s\<lparr>loop_start := start_sample\<rparr>;
          s2 = s1\<lparr>loop_length := end_sample - start_sample + 1\<rparr>;
          s3 = (if loop_length s2 < 1 then s2\<lparr>loop_length := 1\<rparr> else s2)
      in if size_to_float (loop_length s3) \<le> play_head s3 then s3\<lparr>play_head := 0\<rparr>
         else s3)"

definition SetReverse :: "bool \<Rightarrow> OverdubLooper \<Rightarrow> OverdubLooper" where
  "SetReverse rev_flag s = s\<lparr>reverse := rev_flag\<rparr>"

definition SetPlaybackSpeed :: "real \<Rightarrow> OverdubLooper \<Rightarrow> OverdubLooper" where
  "SetPlaybackSpeed speed s = s\<lparr>playback_speed := speed\<rparr>"

definition SetTempo :: "real \<Rightarrow> real \<Rightarrow> OverdubLooper \<Rightarrow> fault + OverdubLooper" where
  "SetTempo new_bpm sr s =
     (if new_bpm \<le> 0 \<or> sr \<le> 0 then Inr s
      else bindF (float_to_size (float_div (float_mul sr 60) new_bpm)) (\<lambda>spb.
             Inr (s\<lparr>bpm := new_bpm, samples_per_beat := spb\<rparr>)))"

definition SetQuantize :: "bool \<Rightarrow> size_t \<Rightarrow> OverdubLooper \<Rightarrow> OverdubLooper" where
  "SetQuantize enable beats s =
     s\<lparr>quantize := enable, quantize_beats := (if 0 < beats then beats else 4)\<rparr>"

definition QuantizeLoopRegion ::
  "size_t \<Rightarrow> size_t \<Rightarrow> OverdubLooper \<Rightarrow> fault + (size_t \<times> size_t)" where
  "QuantizeLoopRegion start_sample end_sample s =
     (if \<not> quantize s \<or> samples_per_beat s = 0 then Inr (start_sample, end_sample)
      else
        let start_beat = (start_sample + samples_per_beat s div 2) div samples_per_beat s;
            out_start = start_beat * samples_per_beat s;
            recorded_length =
              (if start_sample < end_sample then end_sample - start_sample else 0);
            length_in_beats =
              (recorded_length + samples_per_beat s div 2) div samples_per_beat s
        in if length_in_beats < quantize_beats s
           then Inr (out_start, out_start + quantize_beats s * samples_per_beat s)
           else if quantize_beats s = 0 then Inl DivByZero
           else
             let rounded =
                   ((length_in_beats + quantize_beats s div 2) div quantize_beats s)
                     * quantize_beats s
             in Inr (out_start, out_start + rounded * samples_per_beat s))"

text \<open>
  Undo history. \<open>SaveUndoState\<close> copies \<open>_loop_length\<close> samples from
  \<open>_buffer + _loop_start\<close> (with no wrap-around) to the block behind
  \<open>_undo_buffers[_undo_write_index]\<close>; an index outside the array of blocks, or a copy
  that leaves a block, is a fault.
\<close>

definition SaveUndoState :: "OverdubLooper \<Rightarrow> fault + OverdubLooper" where
  "SaveUndoState s =
     (if \<not> undo_enabled s \<or> undo_count s = 0 then Inr s
      else if length (undo_buffers s) \<le> unat (undo_write_index s) then Inl OutOfBounds
      else
        bindF (memcpy_floats (undo_buffers s ! unat (undo_write_index s)) (buffer s)
                 (unat (loop_start s)) (sizeof_float * loop_length s)) (\<lambda>slot.
          let s1 = s\<lparr>undo_buffers := (undo_buffers s)[unat (undo_write_index s) := slot]\<rparr>;
              s2 = s1\<lparr>undo_write_index := (undo_write_index s1 + 1) mod undo_count s1\<rparr>;
              s3 = s2\<lparr>undo_read_index := undo_write_index s2\<rparr>
          in Inr (if undo_depth s3 < undo_count s3
                  then s3\<lparr>undo_depth := undo_depth s3 + 1\<rparr> else s3)))"

text \<open>
  The copy of \<open>Undo\<close> and \<open>Redo\<close>: from the slot under the read cursor to
  \<open>_buffer + _loop_start\<close>. The samples of the buffer before the region and after the copied
  span stay as they are.
\<close>

definition restore_region :: "OverdubLooper \<Rightarrow> fault + OverdubLooper" where
  "restore_region s =
     (if length (undo_buffers s) \<le> unat (undo_read_index s)
         \<or> length (buffer s) < unat (loop_start s)
      then Inl OutOfBounds
      else
        bindF (memcpy_floats (drop (unat (loop_start s)) (buffer s))
                 (undo_buffers s ! unat (undo_read_index s)) 0
                 (sizeof_float * loop_length s)) (\<lambda>region.
          Inr (s\<lparr>buffer := take (unat (loop_start s)) (buffer s) @ region\<rparr>)))"

definition Undo :: "OverdubLooper \<Rightarrow> fault + (bool \<times> OverdubLooper)" where
  "Undo s =
     (if \<not> undo_enabled s \<or> undo_depth s = 0 then Inr (False, s)
      else if undo_count s = 0 then Inl DivByZero
      else
        let s1 = s\<lparr>undo_read_index :=
                     (undo_read_index s - 1 + undo_count s) mod undo_count s\<rparr>
        in bindF (restore_region s1) (\<lambda>s2.
             let s3 = s2\<lparr>undo_depth := undo_depth s2 - 1\<rparr>
             in Inr (True,
                     if redo_depth s3 < MAX_UNDO_LEVELS - 1
                     then s3\<lparr>redo_depth := redo_depth s3 + 1\<rparr> else s3)))"

definition Redo :: "OverdubLooper \<Rightarrow> fault + (bool \<times> OverdubLooper)" where
  "Redo s =
     (if \<not> undo_enabled s \<or> redo_depth s = 0 then Inr (False, s)
      else if undo_count s = 0 then Inl DivByZero
      else
        let s1 = s\<lparr>undo_read_index := (undo_read_index s + 1) mod undo_count s\<rparr>
        in bindF (restore_region s1) (\<lambda>s2.
             let s3 = s2\<lparr>undo_depth := undo_depth s2 + 1\<rparr>
             in Inr (True, s3\<lparr>redo_depth := redo_depth s3 - 1\<rparr>)))"

definition CanUndo :: "OverdubLooper \<Rightarrow> bool" where
  "CanUndo s = (undo_enabled s \<and> 0 < undo_depth s)"

definition CanRedo :: "OverdubLooper \<Rightarrow> bool" where
  "CanRedo s = (undo_enabled s \<and> 0 < redo_depth s)"

definition StartOverdub :: "OverdubLooper \<Rightarrow> fault + OverdubLooper" where
  "StartOverdub s = bindF (SaveUndoState s) (\<lambda>s1. Inr (s1\<lparr>overdubbing := True\<rparr>))"

text \<open>
  Playback: soft clipping and the interpolated read. The library function \<open>tanhf\<close> is
  taken to return the single nearest to the hyperbolic tangent; \<open>0.7f\<close> is the single
  nearest to \<open>0.7\<close>.
\<close>

definition tanhf :: "real \<Rightarrow> real" where
  "tanhf x = float_round (tanh x)"

definition SoftClip :: "real \<Rightarrow> real" where
  "SoftClip x = float_div (tanhf (float_mul x (float_round 0.7))) (float_round 0.7)"

definition GetInterpolatedSample :: "real \<Rightarrow> OverdubLooper \<Rightarrow> fault + real" where
  "GetInterpolatedSample position s =
     bindF (float_to_size position) (\<lambda>idx0.
       if loop_length s = 0 then Inl DivByZero
       else
         let idx1 = (idx0 + 1) mod loop_length s;
             frac = float_sub position (size_to_float idx0)
         in if buffer_length s = 0 then Inl DivByZero
            else
              let actual_idx0 = (loop_start s + idx0) mod buffer_length s;
                  actual_idx1 = (loop_start s + idx1) mod buffer_length s
              in bindF (read_buffer s actual_idx0) (\<lambda>v0.
                 bindF (read_buffer s actual_idx1) (\<lambda>v1.
                   Inr (float_add (float_mul v0 (float_sub 1 frac)) (float_mul v1 frac)))))"

text \<open>The overdub block of \<open>Process\<close>: gives the mixed sample and the object after the
  write.\<close>

definition overdub_mix :: "real \<Rightarrow> OverdubLooper \<Rightarrow> fault + (real \<times> OverdubLooper)" where
  "overdub_mix inp s =
     bindF (float_to_size (play_head s)) (\<lambda>ph.
       if buffer_length s = 0 then Inl DivByZero
       else
         let index = (loop_start s + ph) mod buffer_length s
         in bindF (read_buffer s index) (\<lambda>v.
              let mixed = SoftClip (float_add v inp)
              in bindF (write_buffer s index mixed) (\<lambda>s1. Inr (mixed, s1))))"

text \<open>The advance of the playhead at the end of \<open>Process\<close>: one wrap at most.\<close>

definition advance_play_head :: "OverdubLooper \<Rightarrow> OverdubLooper" where
  "advance_play_head s =
     (if reverse s then
        let s1 = s\<lparr>play_head := float_sub (play_head s) (playback_speed s)\<rparr>
        in if play_head s1 < 0
           then s1\<lparr>play_head := float_add (play_head s1) (size_to_float (loop_length s1))\<rparr>
           else s1
      else
        let s1 = s\<lparr>play_head := float_add (play_head s) (playback_speed s)\<rparr>
        in if size_to_float (loop_length s1) \<le> play_head s1
           then s1\<lparr>play_head := float_sub (play_head s1) (size_to_float (loop_length s1))\<rparr>
           else s1)"

text \<open>
  \<open>Process\<close> returns the output sample and the object after the call. The recording
  branch comes first and returns early.
\<close>

definition Process :: "real \<Rightarrow> OverdubLooper \<Rightarrow> fault + (real \<times> OverdubLooper)" where
  "Process inp s =
     (if is_recording s then
        bindF (write_buffer s (rec_head s) inp) (\<lambda>s1.
          let s2 = s1\<lparr>rec_head := rec_head s1 + 1\<rparr>
          in Inr (inp,
                  if buffer_length s2 \<le> rec_head s2
                  then s2\<lparr>rec_head := 0, is_recording := False\<rparr> else s2))
      else if is_empty s then Inr (0, s)
      else
        bindF (GetInterpolatedSample (play_head s) s) (\<lambda>out.
        bindF (if overdubbing s then overdub_mix inp s else Inr (out, s)) (\<lambda>(out1, s1).
          Inr (out1, advance_play_head s1))))"

text \<open>Feeding a sequence of input samples, one call of \<open>Process\<close> each, in order; the
  outputs are collected.\<close>

fun ProcessMany :: "real list \<Rightarrow> OverdubLooper \<Rightarrow> fault + (real list \<times> OverdubLooper)" where
  "ProcessMany [] s = Inr ([], s)"
| "ProcessMany (x # xs) s =
     bindF (Process x s) (\<lambda>(y, s1).
       bindF (ProcessMany xs s1) (\<lambda>(ys, s2). Inr (y # ys, s2)))"

text \<open>
  A sequence of calls of the public operations, as the control code of the sketch issues
  them; the boolean results of \<open>Undo\<close> and \<open>Redo\<close> and the output of \<open>Process\<close> are
  dropped.
\<close>

datatype call =
  Call_StartRecording
  | Call_StopRecording
  | Call_Process real
  | Call_SetLoopRegion size_t size_t
  | Call_SetReverse bool
  | Call_SetPlaybackSpeed real
  | Call_SaveUndoState
  | Call_Undo
  | Call_Redo

fun do_call :: "call \<Rightarrow> OverdubLooper \<Rightarrow> fault + OverdubLooper" where
  "do_call Call_StartRecording s = Inr (StartRecording s)"
| "do_call Call_StopRecording s = StopRecording s"
| "do_call (Call_Process x) s = bindF (Process x s) (\<lambda>(y, s1). Inr s1)"
| "do_call (Call_SetLoopRegion a b) s = Inr (SetLoopRegion a b s)"
| "do_call (Call_SetReverse r) s = Inr (SetReverse r s)"
| "do_call (Call_SetPlaybackSpeed v) s = Inr (SetPlaybackSpeed v s)"
| "do_call Call_SaveUndoState s = SaveUndoState s"
| "do_call Call_Undo s = bindF (Undo s) (\<lambda>(ok, s1). Inr s1)"
| "do_call Call_Redo s = bindF (Redo s) (\<lambda>(ok, s1). Inr s1)"

fun run :: "call list \<Rightarrow> OverdubLooper \<Rightarrow> fault + OverdubLooper" where
  "run [] s = Inr s"
| "run (c # cs) s = bindF (do_call c s) (run cs)"

section \<open>Auxiliary predicates and example objects\<close>


text \<open>
  A condition under which the playback branch of \<open>Process\<close> returns on every later call:
  forward playback at speed 1 from a playhead that is a whole number inside a region of
  fewer than \<open>2^24\<close> samples (every playhead position is then a \<open>float\<close> value). \<open>Init\<close>
  sets the speed and the direction, \<open>StartRecording\<close> the playhead.
\<close>

definition playback_steady :: "OverdubLooper \<Rightarrow> bool" where
  "playback_steady s =
     (loop_length s \<noteq> 0 \<and> unat (loop_length s) < 2 ^ 24
      \<and> playback_speed s = 1 \<and> \<not> reverse s
      \<and> 0 \<le> play_head s \<and> play_head s < real (unat (loop_length s))
      \<and> of_int \<lfloor>play_head s\<rfloor> = play_head s)"

text \<open>
  The static looper at the start of a recording after \<open>Init\<close> with a buffer of two
  samples and no undo blocks: with the region of the whole buffer (after
  \<open>SetLoopRegion(0, 1)\<close>), and with the region length still zero.
\<close>

definition rec2 :: OverdubLooper where
  "rec2 =
     OverdubLooper_static\<lparr>buffer := [0, 0], buffer_length := 2, loop_length := 2,
       is_recording := True, playback_speed := 1, inv_buffer_length := 1 / 2,
       inv_crossfade_samples := 1 / 128\<rparr>"



text \<open>
  The static looper after \<open>Init\<close> with a buffer of two samples and three undo blocks of
  two samples (holding whatever was in them, here 7s, 8s and 9s), and after \<open>Init\<close> as the
  sketch calls it: 480000 samples (ten seconds at 48 kHz) and three undo blocks of the
  same size.
\<close>

definition looper2 :: "fault + OverdubLooper" where
  "looper2 = Init [0, 0] 2 (Some [[7, 7], [8, 8], [9, 9]]) 3 OverdubLooper_static"

definition looper_sketch :: "fault + OverdubLooper" where
  "looper_sketch =
     Init (replicate 480000 0) 480000
       (Some [replicate 480000 0, replicate 480000 0, replicate 480000 0]) 3
       OverdubLooper_static"

text \<open>
  The value of the \<open>float\<close> expression \<open>(sample_rate * 60.0f) / bpm\<close> of \<open>CalculateTimings\<close>
  and \<open>SetTempo\<close>: the product is rounded, then the quotient.
\<close>

definition beat_quotient :: "real \<Rightarrow> real \<Rightarrow> real" where
  "beat_quotient sr b = float_div (float_mul sr 60) b"

text \<open>
  The clock as its constructor leaves it (120 beats per minute at 48 kHz, in 4/4), and
  that clock after \<open>SetSampleRate 44100\<close>.
\<close>

definition clock_default :: ClockSync where
  "clock_default =
     \<lparr>bpm_clk = 120, time_sig_numerator = 4, time_sig_denominator = 4,
      sample_rate = 48000, samples_per_beat_clk = 24000, samples_per_bar = 96000,
      sample_counter = 0, beat_counter = 0\<rparr>"

definition clock44 :: "fault + ClockSync" where
  "clock44 = bindF ClockSync_new (SetSampleRate 44100)"

text \<open>The static looper after \<open>Init\<close> with a buffer of two samples and a single undo
  block.\<close>

definition looper1 :: "fault + OverdubLooper" where
  "looper1 = Init [0, 0] 2 (Some [[7, 7]]) 1 OverdubLooper_static"

text \<open>
  The numbers of \<open>QuantizeLoopRegion\<close>, and the conditions under which its \<open>size_t\<close>
  arithmetic does not wrap around. \<open>start_fits\<close>: the start plus half a beat is a \<open>size_t\<close>
  value. \<open>beats_recorded\<close> is the source's \<open>length_in_beats\<close> before the adjustment (the sum
  of the recorded length and half a beat as the source computes it, modulo \<open>2^32\<close>),
  \<open>beats_quantized\<close> the adjusted number of beats in unbounded arithmetic.
  \<open>length_fits\<close>: the length in beats plus half the beat count (where the source computes
  it) and the quantized length in samples are \<open>size_t\<close> values.
\<close>

definition start_fits :: "size_t \<Rightarrow> OverdubLooper \<Rightarrow> bool" where
  "start_fits start_sample s =
     (unat start_sample + unat (samples_per_beat s) div 2 < 2 ^ 32)"

definition beats_recorded :: "size_t \<Rightarrow> size_t \<Rightarrow> OverdubLooper \<Rightarrow> nat" where
  "beats_recorded start_sample end_sample s =
     (let B = unat (samples_per_beat s);
          S = unat start_sample;
          E = unat end_sample;
          R = (if S < E then E - S else 0)
      in ((R + B div 2) mod 2 ^ 32) div B)"

definition beats_quantized :: "size_t \<Rightarrow> size_t \<Rightarrow> OverdubLooper \<Rightarrow> nat" where
  "beats_quantized start_sample end_sample s =
     (let Q = unat (quantize_beats s);
          L0 = beats_recorded start_sample end_sample s
      in if L0 < Q then Q else ((L0 + Q div 2) div Q) * Q)"

definition length_fits :: "size_t \<Rightarrow> size_t \<Rightarrow> OverdubLooper \<Rightarrow> bool" where
  "length_fits start_sample end_sample s =
     (let Q = unat (quantize_beats s);
          L0 = beats_recorded start_sample end_sample s
      in (if L0 < Q then True else L0 + Q div 2 < 2 ^ 32)
         \<and> beats_quantized start_sample end_sample s * unat (samples_per_beat s) < 2 ^ 32)"

text \<open>The static looper after \<open>SetQuantize(true, 4)\<close> and \<open>SetTempo(120, 48000)\<close>: a beat
  is 24000 samples. The same with a beat count of 1000, and with a beat count of 4 after
  \<open>SetTempo(2880000, 48000)\<close>: a beat is one sample.\<close>

definition looper_quantized :: OverdubLooper where
  "looper_quantized = OverdubLooper_static\<lparr>quantize := True, samples_per_beat := 24000\<rparr>"

definition looper_quantized_1000 :: "fault + OverdubLooper" where
  "looper_quantized_1000 = SetTempo 120 48000 (SetQuantize True 1000 OverdubLooper_static)"

definition looper_quantized_fast :: "fault + OverdubLooper" where
  "looper_quantized_fast = SetTempo 2880000 48000 (SetQuantize True 4 OverdubLooper_static)"

text \<open>
  The expressions of \<open>ApplyCrossfade\<close> for the iteration \<open>i\<close>, as numbers: the buffer index
  \<open>start_idx\<close> of the \<open>i\<close>-th sample of the region, the buffer index \<open>end_idx\<close> of the
  \<open>i\<close>-th of its last \<open>CROSSFADE_SAMPLES\<close> samples, and the weight \<open>fade\<close>.
\<close>

definition start_index :: "OverdubLooper \<Rightarrow> nat \<Rightarrow> nat" where
  "start_index s i = unat ((loop_start s + of_nat i) mod buffer_length s)"

definition end_index :: "OverdubLooper \<Rightarrow> nat \<Rightarrow> nat" where
  "end_index s i =
     unat ((loop_start s + loop_length s - CROSSFADE_SAMPLES + of_nat i) mod buffer_length s)"

definition fade_at :: "OverdubLooper \<Rightarrow> nat \<Rightarrow> real" where
  "fade_at s i = float_mul (size_to_float (of_nat i)) (inv_crossfade_samples s)"

text \<open>
  One blend of a sample list at index \<open>S i\<close> with the sample at \<open>E i\<close>, weights \<open>f i\<close> and
  \<open>1 - f i\<close>: what one iteration does to the buffer.
\<close>

definition blend_step ::
  "(nat \<Rightarrow> nat) \<Rightarrow> (nat \<Rightarrow> nat) \<Rightarrow> (nat \<Rightarrow> real) \<Rightarrow> real list \<Rightarrow> nat \<Rightarrow> real list" where
  "blend_step S E f b i = b[S i := crossfade_blend (b ! S i) (b ! E i) (f i)]"

text \<open>
  A looper whose buffer of 256 samples holds 0, 1, ..., 255, the whole buffer being the
  region, with the crossfade step of \<open>Init\<close>; the same looper with a region of 383 samples,
  longer than the buffer (as after \<open>SetLoopRegion(0, 382)\<close>); and a looper whose buffer of
  264 samples holds 0, 1, ..., 263, with a region of 263 samples that starts at
  \<open>2^32 - 1\<close> (as after \<open>SetLoopRegion(4294967295, 261)\<close>).
\<close>

definition looper256 :: OverdubLooper where
  "looper256 =
     OverdubLooper_static\<lparr>buffer := map real [0..<256], buffer_length := 256,
       loop_length := 256, inv_crossfade_samples := 1 / 128\<rparr>"

definition looper256_long :: OverdubLooper where
  "looper256_long = looper256\<lparr>loop_length := 383\<rparr>"

definition looper264 :: OverdubLooper where
  "looper264 =
     OverdubLooper_static\<lparr>buffer := map real [0..<264], buffer_length := 264,
       loop_start := 4294967295, loop_length := 263, inv_crossfade_samples := 1 / 128\<rparr>"

text \<open>
  What the history counters do satisfy: the redo depth is at most 2 and the two depths
  together are at most the configured count plus 2 (the count being at most
  \<open>MAX_UNDO_LEVELS\<close>).
\<close>

definition history_ok :: "OverdubLooper \<Rightarrow> bool" where
  "history_ok s =
     (unat (undo_count s) \<le> 3 \<and> unat (redo_depth s) \<le> 2
      \<and> unat (undo_depth s) + unat (redo_depth s) \<le> unat (undo_count s) + 2)"

section \<open>Properties of the state machine\<close>

lemma GetNextState_table:
  "GetNextState st ev = (case spec_event_table st ev of Some t \<Rightarrow> t | None \<Rightarrow> st)"
  by (cases st; cases ev) simp_all

lemma table_target_differs: "spec_event_table st ev = Some t \<Longrightarrow> t \<noteq> st"
  by (cases st; cases ev) auto

lemma table_target_allowed: "spec_event_table st ev = Some t \<Longrightarrow> CanTransition st t"
  by (cases st; cases ev) auto

text \<open>
  Claim C2. For every state and event, \<open>ProcessEvent\<close> does what the event table of
  section 4.1 says: on a listed pair the machine moves to the listed successor (the old
  state becomes the previous one) and the call returns true; on every other pair the
  machine is left as it was and the call returns false.
\<close>

theorem ProcessEvent_follows_table:
  "ProcessEvent ev m =
     (case spec_event_table (current_state m) ev of
        Some t \<Rightarrow> (True, m\<lparr>previous_state := current_state m, current_state := t\<rparr>)
      | None \<Rightarrow> (False, m))"
proof (cases "spec_event_table (current_state m) ev")
  case None
  then show ?thesis
    by (simp add: ProcessEvent_def GetNextState_table del: GetNextState.simps)
next
  case (Some t)
  then have "t \<noteq> current_state m" and "CanTransition (current_state m) t"
    by (rule table_target_differs, rule table_target_allowed)
  with Some show ?thesis
    by (simp add: ProcessEvent_def TransitionTo_def OnEnter_def OnExit_def
        GetNextState_table del: GetNextState.simps CanTransition.simps)
qed

theorem ProcessEvent_follows_table_witness:
  "ProcessEvent PRESS_REC LooperStateMachine_new
     = (True, \<lparr>current_state = RECORDING_INITIAL, previous_state = IDLE\<rparr>)
   \<and> ProcessEvent PRESS_PLAY LooperStateMachine_new = (False, LooperStateMachine_new)"
  using ProcessEvent_follows_table [of PRESS_REC LooperStateMachine_new]
    ProcessEvent_follows_table [of PRESS_PLAY LooperStateMachine_new]
  by (simp add: LooperStateMachine_new_def)

section \<open>Rounding to single precision\<close>

text \<open>
  Rounding is the identity on every number \<open>m * 2^e\<close> with a significand \<open>m\<close> of at most 24
  bits (in particular on the integers below \<open>2^24\<close>); in the binade \<open>[2^e, 2^(e+1))\<close> it
  rounds to a multiple of \<open>2^(e-23)\<close>; and no single lies between a natural number and the
  single it is rounded up to.
\<close>

lemma round_half_even_of_int: "round_half_even (of_int z) = z"
  by (simp add: round_half_even_def)

lemma round_half_even_nonneg: "0 \<le> x \<Longrightarrow> 0 \<le> round_half_even x"
  by (auto simp: round_half_even_def Let_def)

lemma round_half_even_bounds:
  "\<lfloor>x\<rfloor> \<le> round_half_even x \<and> round_half_even x \<le> \<lfloor>x\<rfloor> + 1"
  by (auto simp: round_half_even_def Let_def)

lemma float_round_nonneg: "0 \<le> x \<Longrightarrow> 0 \<le> float_round x"
  by (simp add: float_round_def Let_def round_half_even_nonneg)

lemma float_exponent_eq:
  assumes "2 powr of_int e \<le> \<bar>x\<bar>" "\<bar>x\<bar> < 2 powr (of_int e + 1)" "- 126 \<le> e"
  shows "float_exponent x = e"
proof -
  have "0 < \<bar>x\<bar>" using assms(1) by (smt (verit) powr_gt_zero)
  then have "\<lfloor>log 2 \<bar>x\<bar>\<rfloor> = e"
    using assms(1,2) by (simp add: floor_log_eq_powr_iff)
  then show ?thesis using assms(3) by (simp add: float_exponent_def)
qed

lemma float_round_binade_le:
  assumes "2 ^ e \<le> \<bar>x\<bar>" "\<bar>x\<bar> < 2 ^ Suc e" "e \<le> 23"
  shows "float_round x = of_int (round_half_even (x * 2 ^ (23 - e))) / 2 ^ (23 - e)"
proof -
  have "float_exponent x = int e"
    using assms(1,2) by (intro float_exponent_eq) (simp_all add: powr_realpow powr_add)
  moreover have "x \<noteq> 0"
  proof
    assume "x = 0"
    then have "(2::real) ^ e \<le> 0" using assms(1) by simp
    moreover have "(0::real) < 2 ^ e" by simp
    ultimately show False by linarith
  qed
  moreover have "2 powr (real_of_int (int e) - 23) = 1 / 2 ^ (23 - e)"
  proof -
    have h: "real_of_int (int e) - 23 = - real (23 - e)" using assms(3) by simp
    have "(2::real) powr (real_of_int (int e) - 23) = 2 powr (- real (23 - e))"
      by (simp only: h)
    also have "\<dots> = inverse (2 powr real (23 - e))" by (rule powr_minus)
    also have "\<dots> = inverse (2 ^ (23 - e))" by (simp only: powr_realpow [OF zero_less_numeral])
    also have "\<dots> = 1 / 2 ^ (23 - e)" by (rule inverse_eq_divide)
    finally show ?thesis .
  qed
  ultimately show ?thesis by (simp add: float_round_def Let_def)
qed

lemma float_round_binade_ge:
  assumes "2 ^ e \<le> \<bar>x\<bar>" "\<bar>x\<bar> < 2 ^ Suc e" "23 \<le> e"
  shows "float_round x = of_int (round_half_even (x / 2 ^ (e - 23))) * 2 ^ (e - 23)"
proof -
  have "float_exponent x = int e"
    using assms(1,2) by (intro float_exponent_eq) (simp_all add: powr_realpow powr_add)
  moreover have "x \<noteq> 0"
  proof
    assume "x = 0"
    then have "(2::real) ^ e \<le> 0" using assms(1) by simp
    moreover have "(0::real) < 2 ^ e" by simp
    ultimately show False by linarith
  qed
  moreover have "2 powr (real_of_int (int e) - 23) = 2 ^ (e - 23)"
  proof -
    have h: "real_of_int (int e) - 23 = real (e - 23)" using assms(3) by simp
    show ?thesis by (simp only: h powr_realpow [OF zero_less_numeral])
  qed
  ultimately show ?thesis by (simp add: float_round_def Let_def)
qed

lemma float_round_exact:
  assumes "\<bar>m\<bar> < 2 ^ 24" "- 149 \<le> e"
  shows "float_round (of_int m * 2 powr of_int e) = of_int m * 2 powr of_int e"
proof (cases "m = 0")
  case True
  then show ?thesis by (simp add: float_round_def)
next
  case False
  define x where "x = real_of_int m * 2 powr of_int e"
  have x0: "x \<noteq> 0" using False by (simp add: x_def)
  have ax: "\<bar>x\<bar> = \<bar>real_of_int m\<bar> * 2 powr of_int e" by (simp add: x_def abs_mult)
  have "\<bar>real_of_int m\<bar> < 2 ^ 24" using assms(1) by (metis of_int_abs of_int_less_numeral_power_cancel_iff)
  then have "\<bar>x\<bar> < 2 ^ 24 * 2 powr of_int e" by (simp add: ax)
  also have "\<dots> = 2 powr (of_int (e + 24))"
  proof -
    have "(2::real) powr (of_int (e + 24)) = 2 powr (of_int e) * 2 powr 24"
      by (simp only: of_int_add of_int_numeral powr_add)
    moreover have "(2::real) powr 24 = 2 ^ 24" by simp
    ultimately show ?thesis by (simp only: mult.commute)
  qed
  finally have up: "\<bar>x\<bar> < 2 powr (of_int (e + 24))" .
  have "log 2 \<bar>x\<bar> < of_int (e + 24)"
    using up x0 by (simp add: log_less_iff)
  then have "\<lfloor>log 2 \<bar>x\<bar>\<rfloor> < e + 24" by (simp add: floor_less_iff)
  then have "float_exponent x \<le> e + 23" using assms(2) by (simp add: float_exponent_def)
  moreover have "- 126 \<le> float_exponent x" by (simp add: float_exponent_def)
  ultimately have "0 \<le> e - (float_exponent x - 23)" by simp
  then obtain t :: nat where "e - (float_exponent x - 23) = int t"
    using nonneg_int_cases by blast
  then have t: "real_of_int e = (real_of_int (float_exponent x) - 23) + real t"
    by linarith
  define u where "u = 2 powr (real_of_int (float_exponent x) - 23)"
  have "2 powr real_of_int e = u * 2 powr real t"
    unfolding t u_def by (rule powr_add)
  then have "2 powr real_of_int e = u * 2 ^ t"
    by (simp add: powr_realpow)
  then have xu: "x = of_int (m * 2 ^ t) * u" unfolding x_def by simp
  have upos: "0 < u" by (simp add: u_def)
  have "real_of_int (m * 2 ^ t) * u / u = real_of_int (m * 2 ^ t)" using upos by simp
  then have "x / u = of_int (m * 2 ^ t)" by (subst xu)
  then have r: "round_half_even (x / u) = m * 2 ^ t" by (simp only: round_half_even_of_int)
  have "float_round x = of_int (round_half_even (x / u)) * u"
    using x0 by (simp add: float_round_def u_def Let_def)
  also have "\<dots> = of_int (m * 2 ^ t) * u" by (simp only: r)
  also have "\<dots> = x" by (rule xu [symmetric])
  finally show ?thesis by (simp only: x_def)
qed

lemma float_round_of_int: "\<bar>z\<bar> < 2 ^ 24 \<Longrightarrow> float_round (of_int z) = of_int z"
  using float_round_exact [of z 0] by simp

lemma float_round_of_nat: "n < 2 ^ 24 \<Longrightarrow> float_round (real n) = real n"
  using float_round_of_int [of "int n"] by simp

lemma float_round_dyadic:
  assumes "\<bar>m\<bar> < 2 ^ 24" "j \<le> 149"
  shows "float_round (of_int m / 2 ^ j) = of_int m / 2 ^ j"
proof -
  have "2 powr real_of_int (- int j) = 1 / 2 ^ j"
    by (simp add: powr_minus powr_realpow inverse_eq_divide)
  then show ?thesis using float_round_exact [of m "- int j"] assms by simp
qed

lemma float_round_pow2: "float_round (of_int m * 2 ^ k) = of_int m * 2 ^ k" if "\<bar>m\<bar> < 2 ^ 24"
  using float_round_exact [of m "int k"] that by (simp add: powr_realpow)


lemma round_half_even_le_ceiling: "round_half_even y \<le> \<lceil>y\<rceil>"
proof (cases "y = of_int \<lfloor>y\<rfloor>")
  case True
  then have "round_half_even y = \<lfloor>y\<rfloor>" by (simp add: round_half_even_def)
  then show ?thesis by (simp add: floor_le_ceiling)
next
  case False
  then have "\<lceil>y\<rceil> = \<lfloor>y\<rfloor> + 1" by (simp add: ceiling_altdef)
  then show ?thesis using round_half_even_bounds [of y] by simp
qed

lemma float_below_rounded_nat:
  assumes "is_float p" "p < float_round (real n)"
  shows "p < real n"
proof (cases "n < 2 ^ 24")
  case True
  then show ?thesis using assms(2) by (simp add: float_round_of_nat)
next
  case False
  then have n1: "1 \<le> n" by simp
  obtain e where e: "2 ^ e \<le> n" "n < 2 ^ (e + 1)"
    using ex_power_ivl1 [of 2 n] n1 by auto
  have h: "(2::nat) ^ 24 < 2 ^ (e + 1)" using False e(2) by linarith
  have "(1::nat) < 2" by simp
  from power_less_imp_less_exp [OF this h] have e24: "24 \<le> e" by simp
  define k where "k = e - 23"
  have ek: "e = k + 23" using e24 by (simp add: k_def)
  define y where "y = real n / 2 ^ k"
  have "real (2 ^ e) \<le> real n" "real n < real (2 ^ (e + 1))"
    using e by (simp_all only: of_nat_le_iff of_nat_less_iff)
  then have rn': "(2::real) ^ e \<le> real n" "real n < 2 ^ Suc e"
    by simp_all
  then have rn: "(2::real) ^ e \<le> \<bar>real n\<bar>" "\<bar>real n\<bar> < 2 ^ Suc e"
    by simp_all
  have fn: "float_round (real n) = of_int (round_half_even y) * 2 ^ k"
    using float_round_binade_ge [OF rn] e24 by (simp add: k_def y_def)
  show ?thesis
  proof (rule ccontr)
    assume "\<not> p < real n"
    then have np: "real n \<le> p" by simp
    have "y < 2 ^ 24"
    proof -
      have "real n < 2 ^ 24 * 2 ^ k" using rn'(2) by (simp add: ek power_add)
      then show ?thesis by (simp add: y_def pos_divide_less_eq)
    qed
    then have "\<lceil>y\<rceil> \<le> 2 ^ 24" by (simp add: ceiling_le_iff)
    then have "round_half_even y \<le> 2 ^ 24"
      using round_half_even_le_ceiling [of y] by linarith
    then have "real_of_int (round_half_even y) \<le> 2 ^ 24"
      by (metis of_int_le_numeral_power_cancel_iff)
    then have "real_of_int (round_half_even y) * 2 ^ k \<le> 2 ^ 24 * 2 ^ k" by simp
    then have "float_round (real n) \<le> 2 ^ Suc e" by (simp add: fn ek power_add)
    then have pu: "\<bar>p\<bar> < 2 ^ Suc e" using assms(2) np by linarith
    have pl: "2 ^ e \<le> \<bar>p\<bar>" using rn'(1) np by linarith
    have "float_round p = of_int (round_half_even (p / 2 ^ k)) * 2 ^ k"
      using float_round_binade_ge [OF pl pu] e24 by (simp add: k_def)
    then have pj: "p = of_int (round_half_even (p / 2 ^ k)) * 2 ^ k"
      using assms(1) by (simp add: is_float_def)
    define j where "j = round_half_even (p / 2 ^ k)"
    have pj': "p = of_int j * 2 ^ k" using pj by (simp add: j_def)
    have "y \<le> of_int j"
      using np by (simp add: y_def pj' pos_divide_le_eq)
    then have "\<lceil>y\<rceil> \<le> j" by (simp add: ceiling_le_iff)
    then have "round_half_even y \<le> j" using round_half_even_le_ceiling [of y] by linarith
    then have "real_of_int (round_half_even y) * 2 ^ k \<le> of_int j * 2 ^ k" by simp
    then show False using assms(2) by (simp add: fn pj')
  qed
qed

lemma float_round_numeral: "float_round (numeral w) = numeral w" if "(numeral w :: int) < 2 ^ 24"
  using float_round_of_int [of "numeral w"] that by simp

lemma float_round_neg_numeral:
  "float_round (- numeral w) = - numeral w" if "(numeral w :: int) < 2 ^ 24"
  using float_round_of_int [of "- numeral w"] that by simp

lemma float_round_0: "float_round 0 = 0"
  by (simp add: float_round_def)

lemma float_round_1: "float_round 1 = 1"
  using float_round_of_int [of 1] by simp

lemma float_round_neg_1: "float_round (- 1) = - 1"
  using float_round_of_int [of "- 1"] by simp

lemma float_round_fractions:
  "float_round (1 / 2) = 1 / 2"
  "float_round (1 / 128) = 1 / 128"
  "float_round (127 / 128) = 127 / 128"
  "float_round (32385 / 128) = 32385 / 128"
  "float_round (16193 / 64) = 16193 / 64"
  "float_round (8509 / 64) = 8509 / 64"
  "float_round (17145 / 128) = 17145 / 128"
  using float_round_dyadic [of 1 1] float_round_dyadic [of 1 7] float_round_dyadic [of 127 7]
    float_round_dyadic [of 32385 7] float_round_dyadic [of 16193 6]
    float_round_dyadic [of 8509 6] float_round_dyadic [of 17145 7]
  by simp_all

lemmas float_eval =
  float_add_def float_sub_def float_mul_def float_div_def size_to_float_def
  float_round_numeral float_round_neg_numeral float_round_0 float_round_1 float_round_neg_1

section \<open>Fault propagation and single calls of Process\<close>

lemma bindF_Inr [simp]: "bindF (Inr x) f = f x"
  by (simp add: bindF_def)

lemma bindF_Inl [simp]: "bindF (Inl e) f = Inl e"
  by (simp add: bindF_def)

lemma bindF_eq_Inr: "bindF m f = Inr y \<longleftrightarrow> (\<exists>x. m = Inr x \<and> f x = Inr y)"
  by (cases m) simp_all


lemma replicate_two: "replicate 2 x = [x, x]"
  by (simp add: numeral_2_eq_2)

lemma float_to_size_nonneg:
  assumes "0 \<le> x" and "x < 2 ^ 32"
  shows "float_to_size x = Inr (word_of_int \<lfloor>x\<rfloor>)"
proof -
  from assms(2) have "\<lfloor>x\<rfloor> < 2 ^ 32" by (simp add: floor_less_iff)
  moreover from assms(1) have "0 \<le> \<lfloor>x\<rfloor>" by simp
  ultimately show ?thesis using assms(1) by (simp add: float_to_size_def)
qed


lemma read_buffer_mod_ok:
  "unat (buffer_length s) \<le> length (buffer s) \<Longrightarrow> buffer_length s \<noteq> 0 \<Longrightarrow>
   read_buffer s (i mod buffer_length s) = Inr (buffer s ! unat (i mod buffer_length s))"
  using mod_less_divisor [of "unat (buffer_length s)" "unat i"]
  by (simp add: read_buffer_def unat_mod unat_gt_0 del: mod_less_divisor)

lemma write_buffer_mod_ok:
  "unat (buffer_length s) \<le> length (buffer s) \<Longrightarrow> buffer_length s \<noteq> 0 \<Longrightarrow>
   write_buffer s (i mod buffer_length s) v
     = Inr (s\<lparr>buffer := (buffer s)[unat (i mod buffer_length s) := v]\<rparr>)"
  using mod_less_divisor [of "unat (buffer_length s)" "unat i"]
  by (simp add: write_buffer_def unat_mod unat_gt_0 del: mod_less_divisor)




lemma advance_play_head_fields [simp]:
  "buffer (advance_play_head s) = buffer s"
  "buffer_length (advance_play_head s) = buffer_length s"
  "is_recording (advance_play_head s) = is_recording s"
  by (simp_all add: advance_play_head_def Let_def)




section \<open>Recording up to the capacity\<close>





lemma ProcessMany_Cons_Inr:
  "ProcessMany (x # xs) s = Inr (zs, s') \<longleftrightarrow>
     (\<exists>y s1 ys. Process x s = Inr (y, s1) \<and> ProcessMany xs s1 = Inr (ys, s') \<and> zs = y # ys)"
  by (auto simp: bindF_eq_Inr)

declare ProcessMany.simps(2) [simp del]

lemma ProcessMany_length:
  "ProcessMany xs s = Inr (ys, s') \<Longrightarrow> length ys = length xs"
  by (induction xs arbitrary: s ys) (auto simp: ProcessMany_Cons_Inr)





text \<open>
  \<open>Init\<close> with a block of at least \<open>len\<close> samples, \<open>len\<close> not zero, followed by
  \<open>StartRecording\<close> gives a looper in the condition that the next theorem asks for.
\<close>

lemma Init_buffer:
  assumes "Init buf len undo_bufs num_undo_levels s = Inr s'"
  shows "buffer_length s' = len \<and> length (buffer s') = length buf"
  using assms
  by (auto simp: Init_def Let_def bindF_eq_Inr memset_zero_def split: option.splits if_splits)

lemma StartRecording_ready:
  assumes "buffer_length s \<noteq> 0" and "unat (buffer_length s) \<le> length (buffer s)"
  shows "is_recording (StartRecording s)
         \<and> unat (buffer_length (StartRecording s)) \<le> length (buffer (StartRecording s))
         \<and> rec_head (StartRecording s) < buffer_length (StartRecording s)"
  using assms by (simp add: StartRecording_def word_neq_0_conv)

text \<open>
  The playback branch under \<open>playback_steady\<close>: the playhead steps through the whole
  numbers below the region length, all of them \<open>float\<close> values, and every call returns.
\<close>

lemma advance_play_head_keeps [simp]:
  "loop_length (advance_play_head s) = loop_length s"
  "playback_speed (advance_play_head s) = playback_speed s"
  "reverse (advance_play_head s) = reverse s"
  by (simp_all add: advance_play_head_def Let_def)





lemma playback_steady_buffer [simp]:
  "playback_steady (s\<lparr>buffer := b\<rparr>) = playback_steady s"
  by (simp add: playback_steady_def)




lemma rec2_reached:
  "bindF (Init [0, 0] 2 None 0 OverdubLooper_static)
     (\<lambda>s. Inr (StartRecording (SetLoopRegion 0 1 s))) = Inr rec2"
  by (simp add: Init_def OverdubLooper_static_def CROSSFADE_SAMPLES_def memset_zero_def
      sizeof_float_def float_eval float_round_fractions Let_def replicate_two
      StartRecording_def SetLoopRegion_def rec2_def)


text \<open>
  The run of the witness, evaluated: the third sample is not stored, and the call returns
  the first recorded sample.
\<close>

lemma Process_over_capacity_value:
  "ProcessMany [1, 2, 3] rec2
     = Inr ([1, 2, 1],
            rec2\<lparr>buffer := [1, 2], rec_head := 0, is_recording := False, play_head := 1\<rparr>)"
  by (simp add: ProcessMany.simps Process_def rec2_def OverdubLooper_static_def
      write_buffer_def read_buffer_def GetInterpolatedSample_def advance_play_head_def
      float_to_size_def float_eval Let_def word_le_nat_alt)


section \<open>Loop region\<close>

lemma SetLoopRegion_fields:
  "loop_start (SetLoopRegion a b s) = a"
  "loop_length (SetLoopRegion a b s) = (if b - a + 1 = 0 then 1 else b - a + 1)"
  "play_head (SetLoopRegion a b s) =
     (if size_to_float (loop_length (SetLoopRegion a b s)) \<le> play_head s then 0 else play_head s)"
  "buffer (SetLoopRegion a b s) = buffer s"
  "buffer_length (SetLoopRegion a b s) = buffer_length s"
  by (simp_all add: SetLoopRegion_def Let_def word_less_1)

lemma region_length_no_wrap:
  fixes a b :: size_t
  assumes "a \<le> b" and "unat b - unat a + 1 < 2 ^ 32"
  shows "unat (b - a + 1) = unat b - unat a + 1"
proof -
  from assms(1) have "unat (b - a) = unat b - unat a" by (simp add: unat_sub)
  with assms(2) show ?thesis by (simp add: unat_word_ariths)
qed

lemma region_length_full:
  fixes a b :: size_t
  assumes "a \<le> b" and "\<not> unat b - unat a + 1 < 2 ^ 32"
  shows "a = 0" "b = - 1" "b - a + 1 = 0"
proof -
  have "unat b < 2 ^ 32" using unsigned_less [of b] by simp
  with assms(2) have "unat a = 0" and ub: "unat b = 2 ^ 32 - 1" by simp_all
  then show "a = 0" by (simp add: unat_eq_zero)
  have "b = word_of_nat (unat b)" by simp
  also have "\<dots> = - 1" unfolding ub by simp
  finally show "b = - 1" .
  with \<open>a = 0\<close> show "b - a + 1 = 0" by simp
qed

lemma region_length_wrapped:
  fixes a b :: size_t
  assumes "unat b + 1 < unat a"
  shows "unat (b - a + 1) = 2 ^ 32 + unat b + 1 - unat a"
proof -
  have "unat a < 2 ^ 32" using unsigned_less [of a] by simp
  with assms show ?thesis
    by (simp add: unat_word_ariths unat_sub_if')
qed

text \<open>
  Claim C3, as amended. For \<open>start_sample \<le> end_sample\<close>, after
  \<open>SetLoopRegion start_sample end_sample\<close> the region starts at \<open>start_sample\<close> and its
  length is \<open>end_sample - start_sample + 1\<close> whenever that number is a \<open>size_t\<close> value;
  for the one pair where it is not (0 and the largest \<open>size_t\<close>) the sum wraps to 0 and the
  length is clamped to 1. The comparison of the playhead with the new length is made in
  \<open>float\<close>: the playhead is set to 0 when it is at or beyond the length converted to
  \<open>float\<close> (a length above \<open>2^24\<close> is rounded to 24 significant bits) and is otherwise
  left as it was. So the playhead, the value of a \<open>float\<close>, lies in \<open>[0, length)\<close> whenever
  it was not negative before the call.
\<close>

theorem SetLoopRegion_region_and_playhead:
  assumes "start_sample \<le> end_sample"
  shows "loop_start (SetLoopRegion start_sample end_sample s) = start_sample
       \<and> (unat end_sample - unat start_sample + 1 < 2 ^ 32 \<longrightarrow>
            unat (loop_length (SetLoopRegion start_sample end_sample s))
              = unat end_sample - unat start_sample + 1)
       \<and> (\<not> unat end_sample - unat start_sample + 1 < 2 ^ 32 \<longrightarrow>
            start_sample = 0 \<and> end_sample = - 1
            \<and> loop_length (SetLoopRegion start_sample end_sample s) = 1)
       \<and> play_head (SetLoopRegion start_sample end_sample s)
            = (if size_to_float (loop_length (SetLoopRegion start_sample end_sample s))
                    \<le> play_head s
               then 0 else play_head s)
       \<and> (0 \<le> play_head s \<and> is_float (play_head s) \<longrightarrow>
            0 \<le> play_head (SetLoopRegion start_sample end_sample s)
            \<and> play_head (SetLoopRegion start_sample end_sample s)
                < real (unat (loop_length (SetLoopRegion start_sample end_sample s))))"
proof -
  let ?s' = "SetLoopRegion start_sample end_sample s"
  have len1: "unat (loop_length ?s') = unat end_sample - unat start_sample + 1"
    if fit: "unat end_sample - unat start_sample + 1 < 2 ^ 32"
  proof -
    note u = region_length_no_wrap [OF assms fit]
    then have "end_sample - start_sample + 1 \<noteq> 0" by (auto simp: unat_eq_zero [symmetric])
    with u show ?thesis by (simp add: SetLoopRegion_fields)
  qed
  have len2: "start_sample = 0 \<and> end_sample = - 1 \<and> loop_length ?s' = 1"
    if "\<not> unat end_sample - unat start_sample + 1 < 2 ^ 32"
    using region_length_full [OF assms that] by (simp add: SetLoopRegion_fields)
  have "loop_length ?s' \<noteq> 0" by (simp add: SetLoopRegion_fields)
  then have "0 < unat (loop_length ?s')" by (simp add: unat_gt_0)
  then have pos: "0 < real (unat (loop_length ?s'))"
    by (simp only: of_nat_0_less_iff)
  have ph: "0 \<le> play_head ?s' \<and> play_head ?s' < real (unat (loop_length ?s'))"
    if nn: "0 \<le> play_head s" and fl: "is_float (play_head s)"
  proof (cases "size_to_float (loop_length ?s') \<le> play_head s")
    case True
    then show ?thesis using pos by (simp add: SetLoopRegion_fields(3))
  next
    case False
    then have "play_head s < float_round (real (unat (loop_length ?s')))"
      by (simp add: size_to_float_def)
    from float_below_rounded_nat [OF fl this] False nn
    show ?thesis by (simp add: SetLoopRegion_fields(3))
  qed
  show ?thesis
    using len1 len2 ph by (simp add: SetLoopRegion_fields(1,3))
qed

theorem SetLoopRegion_region_and_playhead_witness:
  "loop_start (SetLoopRegion 3 7 OverdubLooper_static) = 3
   \<and> unat (loop_length (SetLoopRegion 3 7 OverdubLooper_static)) = 5
   \<and> play_head (SetLoopRegion 3 7 OverdubLooper_static) = 0"
proof -
  have h: "(3 :: size_t) \<le> 7" by simp
  have p: "play_head OverdubLooper_static = 0" by (simp add: OverdubLooper_static_def)
  have f: "is_float 0" by (simp add: is_float_def float_round_0)
  from SetLoopRegion_region_and_playhead [OF h, of OverdubLooper_static]
  show ?thesis by (simp add: p f)
qed

text \<open>
  The claim as stated fails: a playhead that went negative (a one-sample region played in
  reverse at speed 2) stays negative through \<open>SetLoopRegion 0 1\<close>, and the pair 0 and
  \<open>2^32 - 1\<close> gives length 1.
\<close>

theorem SetLoopRegion_playhead_counterexample:
  "map_sum id (\<lambda>s. (loop_length s, play_head s))
     (bindF looper2
        (run [Call_StartRecording, Call_Process 1, Call_Process 2, Call_SetLoopRegion 0 0,
              Call_SetReverse True, Call_SetPlaybackSpeed 2, Call_Process 0,
              Call_SetLoopRegion 0 1]))
     = Inr (2, - 1)
   \<and> loop_length (SetLoopRegion 0 4294967295 OverdubLooper_static) = 1"
  by (simp add: looper2_def bindF_def Init_def OverdubLooper_static_def MAX_UNDO_LEVELS_def
      CROSSFADE_SAMPLES_def memset_zero_def memcpy_floats_def sizeof_float_def float_eval
      float_to_size_def read_buffer_def write_buffer_def StartRecording_def
      SetLoopRegion_def SetReverse_def SetPlaybackSpeed_def
      Process_def GetInterpolatedSample_def advance_play_head_def
      Let_def word_le_nat_alt word_less_nat_alt)

text \<open>
  The comparison rounds the length: with a region of \<open>2^24 + 1\<close> samples a playhead at
  \<open>2^24\<close>, inside the region, is reset, because the length converted to \<open>float\<close> is
  \<open>2^24\<close>.
\<close>

lemma SetLoopRegion_float_comparison:
  "size_to_float 16777217 = 16777216"
  "play_head (SetLoopRegion 0 16777216 (OverdubLooper_static\<lparr>play_head := 16777216\<rparr>)) = 0"
proof -
  have "float_round 16777217 = 16777216"
    by (subst float_round_binade_ge [where e = 24]) (simp_all add: round_half_even_def)
  then show a: "size_to_float 16777217 = 16777216" by (simp add: size_to_float_def)
  have "loop_length (SetLoopRegion 0 16777216 (OverdubLooper_static\<lparr>play_head := 16777216\<rparr>))
          = 16777217"
    by (simp add: SetLoopRegion_fields)
  then show "play_head (SetLoopRegion 0 16777216 (OverdubLooper_static\<lparr>play_head := 16777216\<rparr>)) = 0"
    by (simp add: SetLoopRegion_fields(3) a)
qed

text \<open>
  Claim C10, as amended. For \<open>end_sample < start_sample\<close>: when
  \<open>end_sample + 1 < start_sample\<close> the stored length is the wrapped value
  \<open>(end_sample - start_sample + 1) mod 2^32\<close>, that is \<open>2^32\<close> less
  \<open>start_sample - end_sample - 1\<close>; it exceeds the buffer capacity exactly when
  \<open>start_sample - end_sample - 1 < 2^32 - capacity\<close>, in particular whenever
  \<open>start_sample\<close> is an index of a buffer of at most \<open>2^31\<close> samples. The clamp changes
  the stored length exactly when \<open>end_sample + 1 = start_sample\<close>, where the length is 1.
\<close>

theorem SetLoopRegion_inverted_region:
  assumes "end_sample < start_sample"
  shows "(unat end_sample + 1 < unat start_sample \<longrightarrow>
            loop_length (SetLoopRegion start_sample end_sample s) = end_sample - start_sample + 1
            \<and> uint (loop_length (SetLoopRegion start_sample end_sample s))
                = (uint end_sample - uint start_sample + 1) mod 2 ^ 32
            \<and> unat (loop_length (SetLoopRegion start_sample end_sample s))
                = 2 ^ 32 - (unat start_sample - unat end_sample - 1)
            \<and> (unat (buffer_length s) < unat (loop_length (SetLoopRegion start_sample end_sample s))
                 \<longleftrightarrow> unat start_sample - unat end_sample - 1 < 2 ^ 32 - unat (buffer_length s))
            \<and> (start_sample < buffer_length s \<and> unat (buffer_length s) \<le> 2 ^ 31 \<longrightarrow>
                 unat (buffer_length s)
                   < unat (loop_length (SetLoopRegion start_sample end_sample s))))
       \<and> (loop_length (SetLoopRegion start_sample end_sample s) \<noteq> end_sample - start_sample + 1
            \<longleftrightarrow> unat end_sample + 1 = unat start_sample)
       \<and> (unat end_sample + 1 = unat start_sample \<longrightarrow>
            loop_length (SetLoopRegion start_sample end_sample s) = 1)"
proof -
  let ?s' = "SetLoopRegion start_sample end_sample s"
  let ?a = "unat start_sample" and ?b = "unat end_sample"
  have ab: "?b < ?a" using assms by (simp add: word_less_nat_alt)
  have a32: "?a < 2 ^ 32" using unsigned_less [of start_sample] by simp
  have c32: "unat (buffer_length s) < 2 ^ 32" using unsigned_less [of "buffer_length s"] by simp
  have adj: "end_sample - start_sample + 1 = 0" if "?b + 1 = ?a"
  proof -
    have "start_sample = end_sample + 1"
    proof -
      have "unat (end_sample + 1) = ?b + 1"
        using that a32 by (simp add: unat_word_ariths)
      with that have "unat start_sample = unat (end_sample + 1)" by simp
      then show ?thesis by (rule word_unat_eq_iff [THEN iffD2])
    qed
    then show ?thesis by simp
  qed
  have strict: "unat (end_sample - start_sample + 1) = 2 ^ 32 + ?b + 1 - ?a"
    if "?b + 1 < ?a"
    using region_length_wrapped [OF that] .
  have nz: "end_sample - start_sample + 1 \<noteq> 0" if "?b + 1 < ?a"
  proof
    assume "end_sample - start_sample + 1 = 0"
    then have "unat (end_sample - start_sample + 1) = 0" by simp
    with strict [OF that] a32 show False by simp
  qed
  have part1: "loop_length ?s' = end_sample - start_sample + 1
            \<and> uint (loop_length ?s') = (uint end_sample - uint start_sample + 1) mod 2 ^ 32
            \<and> unat (loop_length ?s') = 2 ^ 32 - (?a - ?b - 1)
            \<and> (unat (buffer_length s) < unat (loop_length ?s')
                 \<longleftrightarrow> ?a - ?b - 1 < 2 ^ 32 - unat (buffer_length s))
            \<and> (start_sample < buffer_length s \<and> unat (buffer_length s) \<le> 2 ^ 31 \<longrightarrow>
                 unat (buffer_length s) < unat (loop_length ?s'))"
    if lt: "?b + 1 < ?a"
  proof -
    have l: "loop_length ?s' = end_sample - start_sample + 1"
      using nz [OF lt] by (simp add: SetLoopRegion_fields)
    have u: "unat (loop_length ?s') = 2 ^ 32 + ?b + 1 - ?a"
      using strict [OF lt] l by simp
    have m: "uint (loop_length ?s') = (uint end_sample - uint start_sample + 1) mod 2 ^ 32"
      unfolding l by (simp add: uint_word_ariths mod_simps)
    show ?thesis
      using l u m lt a32 c32 by (auto simp: word_less_nat_alt)
  qed
  have part2: "loop_length ?s' \<noteq> end_sample - start_sample + 1 \<longleftrightarrow> ?b + 1 = ?a"
  proof (cases "?b + 1 = ?a")
    case True
    from adj [OF True] True show ?thesis by (simp add: SetLoopRegion_fields)
  next
    case False
    with ab have "?b + 1 < ?a" by simp
    from nz [OF this] False show ?thesis by (simp add: SetLoopRegion_fields)
  qed
  have part3: "loop_length ?s' = 1" if "?b + 1 = ?a"
    using adj [OF that] by (simp add: SetLoopRegion_fields)
  show ?thesis using part1 part2 part3 by blast
qed

theorem SetLoopRegion_inverted_region_witness:
  "loop_length (SetLoopRegion 7 3 OverdubLooper_static) = 4294967293
   \<and> loop_length (SetLoopRegion 4 3 OverdubLooper_static) = 1"
proof -
  have h: "(3 :: size_t) < 7" "(3 :: size_t) < 4" by simp_all
  from SetLoopRegion_inverted_region [OF h(1), of OverdubLooper_static]
    SetLoopRegion_inverted_region [OF h(2), of OverdubLooper_static]
  show ?thesis by simp
qed

text \<open>
  The claim as stated fails for a start outside the buffer: with the sketch's capacity of
  480000, start \<open>2^32 - 1\<close> and end 0 store the length 2.
\<close>

theorem SetLoopRegion_inverted_region_counterexample:
  "map_sum id (\<lambda>s. (buffer_length s, loop_length (SetLoopRegion 4294967295 0 s))) looper_sketch
     = Inr (480000, 2)
   \<and> \<not> (480000 :: size_t) < 2"
  by (simp add: looper_sketch_def Init_def OverdubLooper_static_def MAX_UNDO_LEVELS_def
      CROSSFADE_SAMPLES_def memset_zero_def sizeof_float_def size_to_float_def Let_def
      SetLoopRegion_def)

section \<open>Clock setters\<close>

lemma beat_quotient_nonneg: "0 \<le> sr \<Longrightarrow> 0 < b \<Longrightarrow> 0 \<le> beat_quotient sr b"
  by (simp add: beat_quotient_def float_div_def float_mul_def float_round_nonneg)

lemma CalculateTimings_value:
  assumes "0 < bpm_clk c" and "0 \<le> sample_rate c"
    and "beat_quotient (sample_rate c) (bpm_clk c) < 2 ^ 32"
  shows "CalculateTimings c =
           Inr (c\<lparr>samples_per_beat_clk :=
                     word_of_int \<lfloor>beat_quotient (sample_rate c) (bpm_clk c)\<rfloor>,
                   samples_per_bar :=
                     word_of_int \<lfloor>beat_quotient (sample_rate c) (bpm_clk c)\<rfloor>
                       * ucast (time_sig_numerator c)\<rparr>)"
proof -
  have "0 \<le> beat_quotient (sample_rate c) (bpm_clk c)"
    using assms(1,2) by (simp add: beat_quotient_nonneg)
  from float_to_size_nonneg [OF this assms(3)] assms(1) show ?thesis
    by (simp add: CalculateTimings_def Let_def beat_quotient_def)
qed

text \<open>
  Claim C7, as amended. On a clock with positive tempo and sample rate, each setter
  leaves the whole clock unchanged on a non-positive argument (for the time signature: a
  zero numerator or denominator); on a positive argument it stores the argument and
  recomputes \<open>samples_per_beat\<close> as the \<open>float\<close> quotient \<open>(sample_rate * 60) / bpm\<close> (the
  product and the quotient each rounded to the nearest \<open>float\<close>) truncated to an integer
  (not rounded to the nearest), provided that quotient is below \<open>2^32\<close>, and
  \<open>samples_per_bar\<close> as \<open>samples_per_beat\<close> times the numerator, in \<open>size_t\<close>.
\<close>

theorem ClockSync_setters:
  assumes "0 < bpm_clk c" and "0 < sample_rate c"
  shows "(new_bpm \<le> 0 \<longrightarrow> SetBPM new_bpm c = Inr c)
       \<and> (0 < new_bpm \<and> beat_quotient (sample_rate c) new_bpm < 2 ^ 32 \<longrightarrow>
            SetBPM new_bpm c =
              Inr (c\<lparr>bpm_clk := new_bpm,
                      samples_per_beat_clk :=
                        word_of_int \<lfloor>beat_quotient (sample_rate c) new_bpm\<rfloor>,
                      samples_per_bar :=
                        word_of_int \<lfloor>beat_quotient (sample_rate c) new_bpm\<rfloor>
                          * ucast (time_sig_numerator c)\<rparr>))
       \<and> (new_rate \<le> 0 \<longrightarrow> SetSampleRate new_rate c = Inr c)
       \<and> (0 < new_rate \<and> beat_quotient new_rate (bpm_clk c) < 2 ^ 32 \<longrightarrow>
            SetSampleRate new_rate c =
              Inr (c\<lparr>sample_rate := new_rate,
                      samples_per_beat_clk :=
                        word_of_int \<lfloor>beat_quotient new_rate (bpm_clk c)\<rfloor>,
                      samples_per_bar :=
                        word_of_int \<lfloor>beat_quotient new_rate (bpm_clk c)\<rfloor>
                          * ucast (time_sig_numerator c)\<rparr>))
       \<and> (numerator = 0 \<or> denominator = 0 \<longrightarrow> SetTimeSignature numerator denominator c = Inr c)
       \<and> (numerator \<noteq> 0 \<and> denominator \<noteq> 0
            \<and> beat_quotient (sample_rate c) (bpm_clk c) < 2 ^ 32 \<longrightarrow>
            SetTimeSignature numerator denominator c =
              Inr (c\<lparr>time_sig_numerator := numerator, time_sig_denominator := denominator,
                      samples_per_beat_clk :=
                        word_of_int \<lfloor>beat_quotient (sample_rate c) (bpm_clk c)\<rfloor>,
                      samples_per_bar :=
                        word_of_int \<lfloor>beat_quotient (sample_rate c) (bpm_clk c)\<rfloor>
                          * ucast numerator\<rparr>))"
proof -
  have a: "SetBPM new_bpm c = Inr c" if "new_bpm \<le> 0"
    using that by (simp add: SetBPM_def)
  have b: "SetBPM new_bpm c =
              Inr (c\<lparr>bpm_clk := new_bpm,
                      samples_per_beat_clk :=
                        word_of_int \<lfloor>beat_quotient (sample_rate c) new_bpm\<rfloor>,
                      samples_per_bar :=
                        word_of_int \<lfloor>beat_quotient (sample_rate c) new_bpm\<rfloor>
                          * ucast (time_sig_numerator c)\<rparr>)"
    if "0 < new_bpm" and "beat_quotient (sample_rate c) new_bpm < 2 ^ 32"
    using that assms CalculateTimings_value [of "c\<lparr>bpm_clk := new_bpm\<rparr>"]
    by (simp add: SetBPM_def)
  have c: "SetSampleRate new_rate c = Inr c" if "new_rate \<le> 0"
    using that by (simp add: SetSampleRate_def)
  have d: "SetSampleRate new_rate c =
              Inr (c\<lparr>sample_rate := new_rate,
                      samples_per_beat_clk :=
                        word_of_int \<lfloor>beat_quotient new_rate (bpm_clk c)\<rfloor>,
                      samples_per_bar :=
                        word_of_int \<lfloor>beat_quotient new_rate (bpm_clk c)\<rfloor>
                          * ucast (time_sig_numerator c)\<rparr>)"
    if "0 < new_rate" and "beat_quotient new_rate (bpm_clk c) < 2 ^ 32"
    using that assms CalculateTimings_value [of "c\<lparr>sample_rate := new_rate\<rparr>"]
    by (simp add: SetSampleRate_def)
  have e: "SetTimeSignature numerator denominator c = Inr c"
    if "numerator = 0 \<or> denominator = 0"
    using that by (auto simp: SetTimeSignature_def)
  have f: "SetTimeSignature numerator denominator c =
              Inr (c\<lparr>time_sig_numerator := numerator, time_sig_denominator := denominator,
                      samples_per_beat_clk :=
                        word_of_int \<lfloor>beat_quotient (sample_rate c) (bpm_clk c)\<rfloor>,
                      samples_per_bar :=
                        word_of_int \<lfloor>beat_quotient (sample_rate c) (bpm_clk c)\<rfloor>
                          * ucast numerator\<rparr>)"
    if "numerator \<noteq> 0" and "denominator \<noteq> 0"
      and "beat_quotient (sample_rate c) (bpm_clk c) < 2 ^ 32"
    using that assms
      CalculateTimings_value [of "c\<lparr>time_sig_numerator := numerator,
                                       time_sig_denominator := denominator\<rparr>"]
    by (simp add: SetTimeSignature_def)
  show ?thesis using a b c d e f by blast
qed

text \<open>
  Values of the \<open>float\<close> quotient. At 102.4 beats per minute the tempo is the single
  \<open>13421773 / 131072\<close> and the exact quotient \<open>28124.99998...\<close> is rounded to the single
  28125 before the cast.
\<close>

lemma beat_quotient_values:
  "beat_quotient 48000 120 = 24000"
  "beat_quotient 48000 90 = 32000"
  "beat_quotient 44100 120 = 22050"
  "beat_quotient 44100 128 = 165375 / 8"
  "beat_quotient 48000 (13421773 / 131072) = 28125"
proof -
  show "beat_quotient 48000 120 = 24000" "beat_quotient 48000 90 = 32000"
    "beat_quotient 44100 120 = 22050"
    by (simp_all add: beat_quotient_def float_eval)
  have "float_round (165375 / 8) = 165375 / 8"
    using float_round_dyadic [of 165375 3] by simp
  then show "beat_quotient 44100 128 = 165375 / 8"
    by (simp add: beat_quotient_def float_eval)
  have "float_round (2880000 / (13421773 / 131072)) = 28125"
    by (subst float_round_binade_le [where e = 14]) (simp_all add: round_half_even_def)
  then show "beat_quotient 48000 (13421773 / 131072) = 28125"
    by (simp add: beat_quotient_def float_eval)
qed

lemma ClockSync_new_value: "ClockSync_new = Inr clock_default"
  by (simp add: ClockSync_new_def clock_default_def CalculateTimings_def float_to_size_def
      bindF_def Let_def beat_quotient_values [unfolded beat_quotient_def])

theorem ClockSync_setters_witness:
  "SetBPM 0 clock_default = Inr clock_default
   \<and> SetBPM 90 clock_default
       = Inr (clock_default\<lparr>bpm_clk := 90, samples_per_beat_clk := 32000,
                              samples_per_bar := 128000\<rparr>)
   \<and> SetBPM (13421773 / 131072) clock_default
       = Inr (clock_default\<lparr>bpm_clk := 13421773 / 131072, samples_per_beat_clk := 28125,
                              samples_per_bar := 112500\<rparr>)
   \<and> SetSampleRate (- 1) clock_default = Inr clock_default
   \<and> SetSampleRate 44100 clock_default
       = Inr (clock_default\<lparr>sample_rate := 44100, samples_per_beat_clk := 22050,
                              samples_per_bar := 88200\<rparr>)
   \<and> SetTimeSignature 0 4 clock_default = Inr clock_default
   \<and> SetTimeSignature 3 4 clock_default
       = Inr (clock_default\<lparr>time_sig_numerator := 3, samples_per_bar := 72000\<rparr>)"
proof -
  have h: "0 < bpm_clk clock_default" "0 < sample_rate clock_default"
    by (simp_all add: clock_default_def)
  have v: "bpm_clk clock_default = 120" "sample_rate clock_default = 48000"
    "time_sig_numerator clock_default = 4" "time_sig_denominator clock_default = 4"
    "samples_per_beat_clk clock_default = 24000"
    by (simp_all add: clock_default_def)
  from ClockSync_setters [OF h, of 0 "- 1" 0 4] ClockSync_setters [OF h, of 90 44100 3 4]
    ClockSync_setters [OF h, of "13421773 / 131072" 0 0 0]
  show ?thesis by (simp add: v beat_quotient_values)
qed

text \<open>
  The claim as stated fails: at 44100 Hz and 128 beats per minute the quotient is
  20671.875, exactly in \<open>float\<close>; the clock stores 20671, rounding gives 20672.
\<close>

theorem ClockSync_round_counterexample:
  "map_sum id samples_per_beat_clk (bindF clock44 (SetBPM 128)) = Inr 20671
   \<and> round (44100 * 60 / 128 :: real) = 20672"
  by (simp add: clock44_def ClockSync_new_value clock_default_def SetSampleRate_def SetBPM_def
      CalculateTimings_def beat_quotient_values [unfolded beat_quotient_def]
      float_to_size_def bindF_def Let_def round_def)

section \<open>Undo history\<close>

lemmas run_defs = looper2_def bindF_def Init_def OverdubLooper_static_def MAX_UNDO_LEVELS_def
  CROSSFADE_SAMPLES_def memset_zero_def memcpy_floats_def sizeof_float_def size_to_float_def
  float_to_size_def read_buffer_def write_buffer_def StartRecording_def SetLoopRegion_def
  SaveUndoState_def restore_region_def Undo_def Redo_def Process_def Let_def
  word_le_nat_alt word_less_nat_alt replicate_two

text \<open>
  Claim C4 (undo/redo round trip) fails on the code. On the two-sample looper with three
  undo blocks: record 1, 2; save; record 5, 6. The region now holds 5, 6 and one save was
  made. \<open>Undo\<close> then \<open>Redo\<close> leaves 8, 8 in the region, the old content of the second undo
  block, which no save has written; \<open>Redo\<close> (which fails, there being nothing to redo)
  then \<open>Undo\<close> leaves the saved 1, 2. Neither gives back 5, 6.
\<close>

theorem Undo_Redo_round_trip_fails:
  "map_sum id buffer
     (bindF looper2
        (run [Call_SetLoopRegion 0 1, Call_StartRecording, Call_Process 1, Call_Process 2,
              Call_SaveUndoState,
              Call_StartRecording, Call_Process 5, Call_Process 6]))
     = Inr [5, 6]
   \<and> map_sum id buffer
     (bindF looper2
        (run [Call_SetLoopRegion 0 1, Call_StartRecording, Call_Process 1, Call_Process 2,
              Call_SaveUndoState,
              Call_StartRecording, Call_Process 5, Call_Process 6,
              Call_Undo, Call_Redo]))
     = Inr [8, 8]
   \<and> map_sum id buffer
     (bindF looper2
        (run [Call_SetLoopRegion 0 1, Call_StartRecording, Call_Process 1, Call_Process 2,
              Call_SaveUndoState,
              Call_StartRecording, Call_Process 5, Call_Process 6,
              Call_Redo, Call_Undo]))
     = Inr [1, 2]"
  by (simp add: run_defs)

text \<open>
  The bounds that \<open>SaveUndoState\<close>, \<open>Undo\<close> and \<open>Redo\<close> keep, in any order and number.
\<close>

lemma restore_region_counters:
  "restore_region s = Inr s' \<Longrightarrow>
     undo_count s' = undo_count s \<and> undo_depth s' = undo_depth s \<and> redo_depth s' = redo_depth s"
  by (auto simp: restore_region_def bindF_eq_Inr split: if_splits)

lemma unat_succ_small:
  fixes d :: size_t
  shows "unat d \<le> 5 \<Longrightarrow> unat (d + 1) = unat d + 1"
  by (simp add: unat_word_ariths)

lemma unat_pred_pos:
  fixes d :: size_t
  shows "d \<noteq> 0 \<Longrightarrow> unat (d - 1) = unat d - 1"
  by (simp add: unat_minus_one)


lemma SaveUndoState_counters:
  assumes "SaveUndoState s = Inr s'"
  shows "undo_count s' = undo_count s \<and> redo_depth s' = redo_depth s
         \<and> (undo_depth s' = undo_depth s
              \<or> undo_depth s < undo_count s \<and> undo_depth s' = undo_depth s + 1)"
proof (cases "\<not> undo_enabled s \<or> undo_count s = 0")
  case True
  with assms show ?thesis by (auto simp: SaveUndoState_def)
next
  case False
  show ?thesis
  proof (cases "length (undo_buffers s) \<le> unat (undo_write_index s)")
    case True
    with False assms show ?thesis by (simp add: SaveUndoState_def)
  next
    case nb: False
    show ?thesis
    proof (cases "memcpy_floats (undo_buffers s ! unat (undo_write_index s)) (buffer s)
                    (unat (loop_start s)) (sizeof_float * loop_length s)")
      case (Inl e)
      with False nb assms show ?thesis by (simp add: SaveUndoState_def)
    next
      case (Inr slot)
      with False nb have "SaveUndoState s =
          Inr (if undo_depth s < undo_count s
               then s\<lparr>undo_buffers := (undo_buffers s)[unat (undo_write_index s) := slot],
                      undo_write_index := (undo_write_index s + 1) mod undo_count s,
                      undo_read_index := (undo_write_index s + 1) mod undo_count s,
                      undo_depth := undo_depth s + 1\<rparr>
               else s\<lparr>undo_buffers := (undo_buffers s)[unat (undo_write_index s) := slot],
                      undo_write_index := (undo_write_index s + 1) mod undo_count s,
                      undo_read_index := (undo_write_index s + 1) mod undo_count s\<rparr>)"
        by (simp add: SaveUndoState_def Let_def)
      with assms have "s' = (if undo_depth s < undo_count s
               then s\<lparr>undo_buffers := (undo_buffers s)[unat (undo_write_index s) := slot],
                      undo_write_index := (undo_write_index s + 1) mod undo_count s,
                      undo_read_index := (undo_write_index s + 1) mod undo_count s,
                      undo_depth := undo_depth s + 1\<rparr>
               else s\<lparr>undo_buffers := (undo_buffers s)[unat (undo_write_index s) := slot],
                      undo_write_index := (undo_write_index s + 1) mod undo_count s,
                      undo_read_index := (undo_write_index s + 1) mod undo_count s\<rparr>)"
        by simp
      then show ?thesis by simp
    qed
  qed
qed

lemma SaveUndoState_history_ok:
  assumes "history_ok s" and "SaveUndoState s = Inr s'"
  shows "history_ok s'"
proof -
  from SaveUndoState_counters [OF assms(2)]
  have c: "undo_count s' = undo_count s" "redo_depth s' = redo_depth s"
    and d: "undo_depth s' = undo_depth s
              \<or> undo_depth s < undo_count s \<and> undo_depth s' = undo_depth s + 1"
    by simp_all
  from d show ?thesis
  proof
    assume "undo_depth s' = undo_depth s"
    with assms(1) c show ?thesis by (simp add: history_ok_def)
  next
    assume a: "undo_depth s < undo_count s \<and> undo_depth s' = undo_depth s + 1"
    then have lt: "unat (undo_depth s) < unat (undo_count s)" by (simp add: word_less_nat_alt)
    with assms(1) have "unat (undo_depth s) \<le> 5" by (simp add: history_ok_def)
    then have "unat (undo_depth s + 1) = unat (undo_depth s) + 1" by (rule unat_succ_small)
    with assms(1) lt a c show ?thesis by (simp add: history_ok_def)
  qed
qed


lemma Undo_counters:
  assumes "Undo s = Inr (ok, s')" and "undo_enabled s" and "undo_depth s \<noteq> 0"
  shows "undo_count s' = undo_count s \<and> undo_depth s' = undo_depth s - 1
         \<and> redo_depth s' = (if redo_depth s < 2 then redo_depth s + 1 else redo_depth s)"
proof (cases "undo_count s = 0")
  case True
  with assms show ?thesis by (simp add: Undo_def)
next
  case False
  let ?s1 = "s\<lparr>undo_read_index := (undo_read_index s - 1 + undo_count s) mod undo_count s\<rparr>"
  show ?thesis
  proof (cases "restore_region ?s1")
    case (Inl e)
    with False assms show ?thesis by (simp add: Undo_def)
  next
    case (Inr s2)
    from restore_region_counters [OF Inr]
    have c: "undo_count s2 = undo_count s" "undo_depth s2 = undo_depth s"
      "redo_depth s2 = redo_depth s" by simp_all
    from Inr False assms(2,3) have "Undo s =
        Inr (True, if redo_depth s < 2
                   then s2\<lparr>undo_depth := undo_depth s - 1, redo_depth := redo_depth s + 1\<rparr>
                   else s2\<lparr>undo_depth := undo_depth s - 1\<rparr>)"
      by (simp add: Undo_def Let_def c MAX_UNDO_LEVELS_def)
    with assms(1) have "s' = (if redo_depth s < 2
                   then s2\<lparr>undo_depth := undo_depth s - 1, redo_depth := redo_depth s + 1\<rparr>
                   else s2\<lparr>undo_depth := undo_depth s - 1\<rparr>)"
      by simp
    then show ?thesis by (simp add: c)
  qed
qed

lemma Redo_counters:
  assumes "Redo s = Inr (ok, s')" and "undo_enabled s" and "redo_depth s \<noteq> 0"
  shows "undo_count s' = undo_count s \<and> undo_depth s' = undo_depth s + 1
         \<and> redo_depth s' = redo_depth s - 1"
proof (cases "undo_count s = 0")
  case True
  with assms show ?thesis by (simp add: Redo_def)
next
  case False
  let ?s1 = "s\<lparr>undo_read_index := (undo_read_index s + 1) mod undo_count s\<rparr>"
  show ?thesis
  proof (cases "restore_region ?s1")
    case (Inl e)
    with False assms show ?thesis by (simp add: Redo_def)
  next
    case (Inr s2)
    from restore_region_counters [OF Inr]
    have c: "undo_count s2 = undo_count s" "undo_depth s2 = undo_depth s"
      "redo_depth s2 = redo_depth s" by simp_all
    from Inr False assms(2,3) have "Redo s =
        Inr (True, s2\<lparr>undo_depth := undo_depth s + 1, redo_depth := redo_depth s - 1\<rparr>)"
      by (simp add: Redo_def Let_def c)
    with assms(1) have "s' = s2\<lparr>undo_depth := undo_depth s + 1, redo_depth := redo_depth s - 1\<rparr>"
      by simp
    then show ?thesis by (simp add: c)
  qed
qed

lemma Undo_history_ok:
  assumes "history_ok s" and "Undo s = Inr (ok, s')"
  shows "history_ok s'"
proof (cases "\<not> undo_enabled s \<or> undo_depth s = 0")
  case True
  with assms show ?thesis by (auto simp: Undo_def)
next
  case False
  then have en: "undo_enabled s" and dn: "undo_depth s \<noteq> 0" by simp_all
  note c = Undo_counters [OF assms(2) en dn]
  from dn have dp: "unat (undo_depth s - 1) = unat (undo_depth s) - 1" "0 < unat (undo_depth s)"
    by (simp_all add: unat_pred_pos unat_gt_0)
  from assms(1) have b: "unat (undo_count s) \<le> 3" "unat (redo_depth s) \<le> 2"
    "unat (undo_depth s) + unat (redo_depth s) \<le> unat (undo_count s) + 2"
    by (simp_all add: history_ok_def)
  show ?thesis
  proof (cases "redo_depth s < 2")
    case True
    then have lt: "unat (redo_depth s) < 2" by (simp add: word_less_nat_alt)
    then have "unat (redo_depth s) \<le> 5" by simp
    then have rp: "unat (redo_depth s + 1) = unat (redo_depth s) + 1" by (rule unat_succ_small)
    from lt have r2: "unat (redo_depth s) + 1 \<le> 2" by simp
    from b dp
    have "unat (undo_depth s) - 1 + (unat (redo_depth s) + 1) \<le> unat (undo_count s) + 2"
      by linarith
    with b(1) r2 True show ?thesis by (simp add: history_ok_def c dp rp)
  next
    case False
    from b dp
    have "unat (undo_depth s) - 1 + unat (redo_depth s) \<le> unat (undo_count s) + 2"
      by linarith
    with b(1,2) False show ?thesis by (simp add: history_ok_def c dp)
  qed
qed

lemma Redo_history_ok:
  assumes "history_ok s" and "Redo s = Inr (ok, s')"
  shows "history_ok s'"
proof (cases "\<not> undo_enabled s \<or> redo_depth s = 0")
  case True
  with assms show ?thesis by (auto simp: Redo_def)
next
  case False
  then have en: "undo_enabled s" and rn: "redo_depth s \<noteq> 0" by simp_all
  note c = Redo_counters [OF assms(2) en rn]
  from rn have rp: "unat (redo_depth s - 1) = unat (redo_depth s) - 1" "0 < unat (redo_depth s)"
    by (simp_all add: unat_pred_pos unat_gt_0)
  from assms(1) have b: "unat (undo_count s) \<le> 3" "unat (redo_depth s) \<le> 2"
    "unat (undo_depth s) + unat (redo_depth s) \<le> unat (undo_count s) + 2"
    by (simp_all add: history_ok_def)
  then have "unat (undo_depth s) \<le> 5" by linarith
  then have dp: "unat (undo_depth s + 1) = unat (undo_depth s) + 1" by (rule unat_succ_small)
  from b rp have r2: "unat (redo_depth s) - 1 \<le> 2" by linarith
  from b rp
  have "unat (undo_depth s) + 1 + (unat (redo_depth s) - 1) \<le> unat (undo_count s) + 2"
    by linarith
  with b(1) r2 show ?thesis by (simp add: history_ok_def c dp rp)
qed


lemma do_call_history_ok:
  assumes "c \<in> {Call_SaveUndoState, Call_Undo, Call_Redo}" and "history_ok s"
    and "do_call c s = Inr s'"
  shows "history_ok s'"
proof -
  from assms(1) consider "c = Call_SaveUndoState" | "c = Call_Undo" | "c = Call_Redo" by auto
  then show ?thesis
  proof cases
    case 1
    with assms(3) have "SaveUndoState s = Inr s'" by simp
    from SaveUndoState_history_ok [OF assms(2) this] show ?thesis .
  next
    case 2
    with assms(3) obtain ok where "Undo s = Inr (ok, s')" by (auto simp: bindF_eq_Inr)
    from Undo_history_ok [OF assms(2) this] show ?thesis .
  next
    case 3
    with assms(3) obtain ok where "Redo s = Inr (ok, s')" by (auto simp: bindF_eq_Inr)
    from Redo_history_ok [OF assms(2) this] show ?thesis .
  qed
qed

lemma run_history_ok:
  assumes "set cs \<subseteq> {Call_SaveUndoState, Call_Undo, Call_Redo}" and "history_ok s"
    and "run cs s = Inr s'"
  shows "history_ok s'"
  using assms
proof (induction cs arbitrary: s)
  case Nil
  then show ?case by simp
next
  case (Cons c cs)
  from Cons.prems(3) obtain s1 where c: "do_call c s = Inr s1" and r: "run cs s1 = Inr s'"
    by (auto simp: bindF_eq_Inr)
  from Cons.prems(1) have "c \<in> {Call_SaveUndoState, Call_Undo, Call_Redo}"
    and cs: "set cs \<subseteq> {Call_SaveUndoState, Call_Undo, Call_Redo}" by simp_all
  from do_call_history_ok [OF this(1) Cons.prems(2) c] have "history_ok s1" .
  from Cons.IH [OF cs this r] show ?case .
qed

text \<open>
  Claim C5 (bounds of the history counters) fails on the code. With three undo blocks,
  as the sketch configures them, three saves, an undo, a save and a redo leave
  \<open>undo_depth\<close> at 4; with one undo block, a save and an undo leave \<open>redo_depth\<close> at 1.
\<close>

theorem history_counters_exceed_bounds:
  "map_sum id (\<lambda>s. (undo_depth s, undo_count s))
     (bindF looper2
        (run [Call_SetLoopRegion 0 1, Call_SaveUndoState, Call_SaveUndoState, Call_SaveUndoState,
              Call_Undo, Call_SaveUndoState, Call_Redo]))
     = Inr (4, 3)
   \<and> map_sum id (\<lambda>s. (redo_depth s, undo_count s))
       (bindF looper1 (run [Call_SetLoopRegion 0 1, Call_SaveUndoState, Call_Undo]))
     = Inr (1, 1)"
  by (simp add: run_defs looper1_def)

text \<open>
  Claim C8 (a save after an undo discards the redo branch) fails on the code. Record
  1, 2 and save; record 3, 4 and save; record 5, 6 and undo (the region is back at 3, 4);
  record 7, 8 and save; record 9, 10. \<open>CanRedo\<close> is now true, and \<open>Redo\<close> puts 3, 4 in
  the region: the snapshot of the second save, taken before the undo.
\<close>

theorem Redo_after_new_save_succeeds:
  "map_sum id (\<lambda>s. (CanRedo s, buffer s))
     (bindF looper2
        (run [Call_SetLoopRegion 0 1,
              Call_StartRecording, Call_Process 1, Call_Process 2, Call_SaveUndoState,
              Call_StartRecording, Call_Process 3, Call_Process 4, Call_SaveUndoState,
              Call_StartRecording, Call_Process 5, Call_Process 6, Call_Undo,
              Call_StartRecording, Call_Process 7, Call_Process 8, Call_SaveUndoState,
              Call_StartRecording, Call_Process 9, Call_Process 10]))
     = Inr (True, [9, 10])
   \<and> map_sum id buffer
     (bindF looper2
        (run [Call_SetLoopRegion 0 1,
              Call_StartRecording, Call_Process 1, Call_Process 2, Call_SaveUndoState,
              Call_StartRecording, Call_Process 3, Call_Process 4, Call_SaveUndoState,
              Call_StartRecording, Call_Process 5, Call_Process 6, Call_Undo,
              Call_StartRecording, Call_Process 7, Call_Process 8, Call_SaveUndoState,
              Call_StartRecording, Call_Process 9, Call_Process 10,
              Call_Redo]))
     = Inr [3, 4]"
  by (simp add: run_defs CanRedo_def)

section \<open>Quantization\<close>

lemma unat_add_fits:
  fixes a b :: size_t
  shows "unat a + unat b < 2 ^ 32 \<Longrightarrow> unat (a + b) = unat a + unat b"
  by (simp add: unat_word_ariths)

lemma unat_mult_fits:
  fixes a b :: size_t
  shows "unat a * unat b < 2 ^ 32 \<Longrightarrow> unat (a * b) = unat a * unat b"
  by (simp add: unat_word_ariths)

lemma unat_half:
  fixes a :: size_t
  shows "unat (a div 2) = unat a div 2"
  by (simp add: unat_div)

lemma nearest_multiple:
  fixes S B :: nat
  assumes "0 < B"
  shows "2 * \<bar>int ((S + B div 2) div B * B) - int S\<bar> \<le> int B"
proof -
  define q where "q = (S + B div 2) div B * B"
  define r where "r = (S + B div 2) mod B"
  define h where "h = B div 2"
  have e: "q + r = S + h" by (simp add: q_def r_def h_def)
  have m: "r < B" using assms by (simp add: r_def)
  have "2 * h \<le> B" "B \<le> 2 * h + 1" by (simp_all add: h_def)
  with e m have "int q + int r = int S + int h" "int r < int B" "2 * int h \<le> int B"
    "int B \<le> 2 * int h + 1" "0 \<le> int r"
    by linarith+
  then have "int q - int S = int h - int r" "int r - int h \<le> int B - 1 - int h"
    by simp_all
  then have "2 * \<bar>int q - int S\<bar> \<le> int B"
    using \<open>2 * int h \<le> int B\<close> \<open>int B \<le> 2 * int h + 1\<close> \<open>0 \<le> int r\<close>
    by (simp add: abs_if)
  then show ?thesis by (simp add: q_def)
qed

lemma QuantizeLoopRegion_returns:
  fixes start_sample end_sample :: size_t
  assumes "quantize s" and "samples_per_beat s \<noteq> 0" and "quantize_beats s \<noteq> 0"
  defines "lib \<equiv> ((if start_sample < end_sample then end_sample - start_sample else 0)
                    + samples_per_beat s div 2) div samples_per_beat s"
  shows "QuantizeLoopRegion start_sample end_sample s =
           Inr ((start_sample + samples_per_beat s div 2) div samples_per_beat s
                  * samples_per_beat s,
                (start_sample + samples_per_beat s div 2) div samples_per_beat s
                  * samples_per_beat s
                + (if lib < quantize_beats s then quantize_beats s
                   else (lib + quantize_beats s div 2) div quantize_beats s * quantize_beats s)
                  * samples_per_beat s)"
  using assms(1-3) by (simp add: QuantizeLoopRegion_def Let_def lib_def)

lemma quantized_start_nat:
  assumes "start_fits start_sample s"
  shows "unat ((start_sample + samples_per_beat s div 2) div samples_per_beat s
               * samples_per_beat s)
         = (unat start_sample + unat (samples_per_beat s) div 2)
             div unat (samples_per_beat s) * unat (samples_per_beat s)"
proof -
  let ?spb = "samples_per_beat s"
  let ?S = "unat start_sample" and ?B = "unat ?spb"
  have f1: "?S + ?B div 2 < 2 ^ 32" using assms by (simp add: start_fits_def)
  have h: "unat (?spb div 2) = ?B div 2" by (simp add: unat_half)
  have u1: "unat (start_sample + ?spb div 2) = ?S + ?B div 2"
    using f1 by (simp add: unat_add_fits h)
  have u2: "unat ((start_sample + ?spb div 2) div ?spb) = (?S + ?B div 2) div ?B"
    by (simp add: unat_div u1)
  have "(?S + ?B div 2) div ?B * ?B \<le> ?S + ?B div 2" by simp
  then have le1: "(?S + ?B div 2) div ?B * ?B < 2 ^ 32" using f1 by linarith
  show ?thesis using le1 by (simp add: unat_mult_fits u2)
qed

lemma quantized_length_nat:
  fixes start_sample end_sample :: size_t
  assumes "length_fits start_sample end_sample s"
  defines "lib \<equiv> ((if start_sample < end_sample then end_sample - start_sample else 0)
                    + samples_per_beat s div 2) div samples_per_beat s"
  shows "unat ((if lib < quantize_beats s then quantize_beats s
                else (lib + quantize_beats s div 2) div quantize_beats s * quantize_beats s)
               * samples_per_beat s)
         = beats_quantized start_sample end_sample s * unat (samples_per_beat s)"
proof -
  let ?spb = "samples_per_beat s" and ?qb = "quantize_beats s"
  let ?B = "unat ?spb" and ?Q = "unat ?qb"
  let ?rec = "beats_recorded start_sample end_sample s"
  let ?L = "beats_quantized start_sample end_sample s"
  from assms(1) have f3: "\<not> ?rec < ?Q \<Longrightarrow> ?rec + ?Q div 2 < 2 ^ 32"
    and f4: "?L * ?B < 2 ^ 32"
    unfolding length_fits_def Let_def by (simp_all split: if_splits)
  define rl where "rl = (if start_sample < end_sample then end_sample - start_sample else 0)"
  have u4: "unat rl = (if unat start_sample < unat end_sample
                       then unat end_sample - unat start_sample else 0)"
    by (auto simp: rl_def word_less_nat_alt unat_sub word_le_nat_alt)
  have h: "unat (?spb div 2) = ?B div 2" by (simp add: unat_half)
  have u5: "unat (rl + ?spb div 2) = (unat rl + ?B div 2) mod 2 ^ 32"
    by (simp add: unat_word_ariths h mod_simps)
  have u6: "unat lib = ?rec"
    by (simp add: lib_def rl_def [symmetric] unat_div u5 u4 beats_recorded_def Let_def)
  have cmp: "lib < ?qb \<longleftrightarrow> ?rec < ?Q"
    by (simp add: word_less_nat_alt u6)
  show ?thesis
  proof (cases "?rec < ?Q")
    case True
    then have L: "?L = ?Q" by (simp add: beats_quantized_def Let_def)
    have "unat (?qb * ?spb) = ?Q * ?B"
      using f4 L by (simp add: unat_mult_fits)
    then show ?thesis using True cmp L by simp
  next
    case False
    then have L: "?L = ((?rec + ?Q div 2) div ?Q) * ?Q" by (simp add: beats_quantized_def Let_def)
    have hq: "unat (?qb div 2) = ?Q div 2" by (simp add: unat_half)
    have u9: "unat (lib + ?qb div 2) = ?rec + ?Q div 2"
      using f3 [OF False] by (simp add: unat_add_fits u6 hq)
    have u10: "unat ((lib + ?qb div 2) div ?qb) = (?rec + ?Q div 2) div ?Q"
      by (simp add: unat_div u9)
    have "(?rec + ?Q div 2) div ?Q * ?Q \<le> ?rec + ?Q div 2" by simp
    then have Lle: "(?rec + ?Q div 2) div ?Q * ?Q < 2 ^ 32" using f3 [OF False] by linarith
    have u11: "unat ((lib + ?qb div 2) div ?qb * ?qb) = ?L"
      using Lle L by (simp add: unat_mult_fits u10)
    have u12: "unat ((lib + ?qb div 2) div ?qb * ?qb * ?spb) = ?L * ?B"
      using f4 by (simp add: unat_mult_fits u11)
    show ?thesis using False cmp u12 by simp
  qed
qed

lemma beats_quantized_multiple:
  assumes "quantize_beats s \<noteq> 0"
  shows "unat (quantize_beats s) dvd beats_quantized start_sample end_sample s"
    and "unat (quantize_beats s) \<le> beats_quantized start_sample end_sample s"
proof -
  let ?Q = "unat (quantize_beats s)"
  let ?rec = "beats_recorded start_sample end_sample s"
  let ?L = "beats_quantized start_sample end_sample s"
  have Qpos: "0 < ?Q" using assms by (simp add: unat_gt_0)
  show "?Q dvd ?L" by (simp add: beats_quantized_def Let_def)
  show "?Q \<le> ?L"
  proof (cases "?rec < ?Q")
    case True
    then show ?thesis by (simp add: beats_quantized_def Let_def)
  next
    case False
    then have "?Q \<le> ?rec + ?Q div 2" by simp
    then have "1 \<le> (?rec + ?Q div 2) div ?Q"
      using Qpos by (simp add: div_greater_zero_iff Suc_le_eq)
    then have "1 * ?Q \<le> (?rec + ?Q div 2) div ?Q * ?Q" by (rule mult_le_mono1)
    with False show ?thesis by (simp add: beats_quantized_def Let_def)
  qed
qed

lemma looper_quantized_reached:
  "SetTempo 120 48000 (SetQuantize True 4 OverdubLooper_static) = Inr looper_quantized"
  by (simp add: SetTempo_def SetQuantize_def OverdubLooper_static_def looper_quantized_def
      float_to_size_def float_eval)

lemma looper_quantized_1000_value:
  "looper_quantized_1000 = Inr (looper_quantized\<lparr>quantize_beats := 1000\<rparr>)"
  by (simp add: looper_quantized_1000_def SetTempo_def SetQuantize_def OverdubLooper_static_def
      looper_quantized_def float_to_size_def float_eval)

lemma looper_quantized_fast_value:
  "looper_quantized_fast = Inr (looper_quantized\<lparr>bpm := 2880000, samples_per_beat := 1\<rparr>)"
  by (simp add: looper_quantized_fast_def SetTempo_def SetQuantize_def OverdubLooper_static_def
      looper_quantized_def float_to_size_def float_eval)

text \<open>
  Claim C6, as amended. With quantization off or a zero beat length,
  \<open>QuantizeLoopRegion\<close> returns its two arguments. With quantization on, a non-zero beat
  length and a non-zero beat count it returns a start and an end such that: provided the
  start plus half a beat does not wrap around, the returned start is the start rounded to
  the nearest beat boundary (a multiple of the beat length at most half a beat away, ties
  upwards); provided the length in beats plus half the beat count and the quantized
  length do not wrap around, the returned length, end minus start in \<open>size_t\<close>, is a
  multiple of the beat count times the beat length and at least that product; and
  provided the returned start plus the returned length does not wrap around, the
  returned end is not below the returned start and the length is their difference as
  numbers.
\<close>

theorem QuantizeLoopRegion_quantized:
  "(\<not> quantize s \<or> samples_per_beat s = 0 \<longrightarrow>
      QuantizeLoopRegion start_sample end_sample s = Inr (start_sample, end_sample))
   \<and> (quantize s \<and> samples_per_beat s \<noteq> 0 \<and> quantize_beats s \<noteq> 0 \<longrightarrow>
        (\<exists>qs qe. QuantizeLoopRegion start_sample end_sample s = Inr (qs, qe)
           \<and> (start_fits start_sample s \<longrightarrow>
                unat qs = (unat start_sample + unat (samples_per_beat s) div 2)
                            div unat (samples_per_beat s) * unat (samples_per_beat s)
                \<and> unat (samples_per_beat s) dvd unat qs
                \<and> 2 * \<bar>int (unat qs) - int (unat start_sample)\<bar>
                    \<le> int (unat (samples_per_beat s)))
           \<and> (length_fits start_sample end_sample s \<longrightarrow>
                unat (quantize_beats s) * unat (samples_per_beat s) dvd unat (qe - qs)
                \<and> unat (quantize_beats s) * unat (samples_per_beat s) \<le> unat (qe - qs))
           \<and> (unat qs + unat (qe - qs) < 2 ^ 32 \<longrightarrow>
                unat qs \<le> unat qe \<and> unat qe - unat qs = unat (qe - qs))))"
proof -
  have off: "QuantizeLoopRegion start_sample end_sample s = Inr (start_sample, end_sample)"
    if "\<not> quantize s \<or> samples_per_beat s = 0"
    using that by (auto simp: QuantizeLoopRegion_def)
  have on: "\<exists>qs qe. QuantizeLoopRegion start_sample end_sample s = Inr (qs, qe)
           \<and> (start_fits start_sample s \<longrightarrow>
                unat qs = (unat start_sample + unat (samples_per_beat s) div 2)
                            div unat (samples_per_beat s) * unat (samples_per_beat s)
                \<and> unat (samples_per_beat s) dvd unat qs
                \<and> 2 * \<bar>int (unat qs) - int (unat start_sample)\<bar>
                    \<le> int (unat (samples_per_beat s)))
           \<and> (length_fits start_sample end_sample s \<longrightarrow>
                unat (quantize_beats s) * unat (samples_per_beat s) dvd unat (qe - qs)
                \<and> unat (quantize_beats s) * unat (samples_per_beat s) \<le> unat (qe - qs))
           \<and> (unat qs + unat (qe - qs) < 2 ^ 32 \<longrightarrow>
                unat qs \<le> unat qe \<and> unat qe - unat qs = unat (qe - qs))"
    if q: "quantize s" and b0: "samples_per_beat s \<noteq> 0" and q0: "quantize_beats s \<noteq> 0"
  proof -
    let ?B = "unat (samples_per_beat s)" and ?Q = "unat (quantize_beats s)"
    let ?S = "unat start_sample"
    let ?L = "beats_quantized start_sample end_sample s"
    define lib where "lib = ((if start_sample < end_sample then end_sample - start_sample else 0)
                    + samples_per_beat s div 2) div samples_per_beat s"
    define qs where "qs = (start_sample + samples_per_beat s div 2) div samples_per_beat s
                  * samples_per_beat s"
    define len where "len = (if lib < quantize_beats s then quantize_beats s
                   else (lib + quantize_beats s div 2) div quantize_beats s * quantize_beats s)
                  * samples_per_beat s"
    have res: "QuantizeLoopRegion start_sample end_sample s = Inr (qs, qs + len)"
      using QuantizeLoopRegion_returns [OF q b0 q0, of start_sample end_sample]
      by (simp add: qs_def len_def lib_def)
    have d: "qs + len - qs = len" by simp
    have Bpos: "0 < ?B" using b0 by (simp add: unat_gt_0)
    have st: "unat qs = (?S + ?B div 2) div ?B * ?B \<and> ?B dvd unat qs
              \<and> 2 * \<bar>int (unat qs) - int ?S\<bar> \<le> int ?B"
      if sf: "start_fits start_sample s"
    proof -
      have qsn: "unat qs = (?S + ?B div 2) div ?B * ?B"
        unfolding qs_def by (rule quantized_start_nat [OF sf])
      have c3: "?B dvd unat qs" by (simp add: qsn)
      have c4: "2 * \<bar>int (unat qs) - int ?S\<bar> \<le> int ?B"
        unfolding qsn using nearest_multiple [OF Bpos] .
      from qsn c3 c4 show ?thesis by blast
    qed
    have ln: "unat len = ?L * ?B" if lf: "length_fits start_sample end_sample s"
      unfolding len_def lib_def by (rule quantized_length_nat [OF lf])
    have lp: "?Q * ?B dvd unat len \<and> ?Q * ?B \<le> unat len"
      if lf: "length_fits start_sample end_sample s"
    proof -
      have c1: "?Q * ?B dvd ?L * ?B"
        using beats_quantized_multiple(1) [OF q0] by (rule mult_dvd_mono) simp
      have c2: "?Q * ?B \<le> ?L * ?B"
        using beats_quantized_multiple(2) [OF q0] by (rule mult_le_mono1)
      from c1 c2 show ?thesis by (simp add: ln [OF lf])
    qed
    have en: "unat qs \<le> unat (qs + len) \<and> unat (qs + len) - unat qs = unat len"
      if "unat qs + unat len < 2 ^ 32"
      using that by (simp add: unat_add_fits)
    show ?thesis
      using res st lp en by (simp add: d)
  qed
  show ?thesis using off on by blast
qed

theorem QuantizeLoopRegion_quantized_witness:
  "QuantizeLoopRegion 1000 100000 OverdubLooper_static = Inr (1000, 100000)
   \<and> (\<exists>qs qe. QuantizeLoopRegion 1000 100000 looper_quantized = Inr (qs, qe)
          \<and> unat qs = 0 \<and> 96000 dvd unat (qe - qs) \<and> 96000 \<le> unat (qe - qs)
          \<and> unat qs \<le> unat qe \<and> unat qe - unat qs = unat (qe - qs))"
proof -
  have off: "\<not> quantize OverdubLooper_static"
    by (simp add: OverdubLooper_static_def)
  have v: "quantize looper_quantized" "samples_per_beat looper_quantized = 24000"
    "quantize_beats looper_quantized = 4"
    by (simp_all add: looper_quantized_def OverdubLooper_static_def)
  have sf: "start_fits 1000 looper_quantized"
    by (simp add: start_fits_def v)
  have lf: "length_fits 1000 100000 looper_quantized"
    by (simp add: length_fits_def beats_quantized_def beats_recorded_def v)
  have r: "QuantizeLoopRegion 1000 100000 looper_quantized = Inr (0, 96000)"
    by (simp add: QuantizeLoopRegion_def v Let_def word_less_nat_alt)
  from QuantizeLoopRegion_quantized [of OverdubLooper_static 1000 100000]
    QuantizeLoopRegion_quantized [of looper_quantized 1000 100000]
  show ?thesis using off sf lf by (simp add: v r)
qed

text \<open>
  The claim as stated fails when the arithmetic wraps around. At 24000 samples per beat
  and a beat count of 4: a start of \<open>2^32 - 1000\<close> plus half a beat wraps, and the returned
  start is 0, which is not the nearest beat boundary; a start of \<open>4294944000\<close> with an end
  23000 samples later gives an end of 72704, below the returned start. At 24000 samples
  per beat and a beat count of 1000, the region from 0 to \<open>4294955295\<close> has 179000
  quantized beats, whose length in samples wraps to 1032704, neither a multiple of
  24000000 nor at least that. At one sample per beat and a beat count of 4, the region
  from 0 to \<open>2^32 - 1\<close> has \<open>2^32 - 1\<close> beats, which plus 2 wraps to 1, and the returned length
  is 0.
\<close>

theorem QuantizeLoopRegion_wraps_counterexample:
  "bindF (SetTempo 120 48000 (SetQuantize True 4 OverdubLooper_static))
     (QuantizeLoopRegion 4294966296 4294967295) = Inr (0, 96000)
   \<and> \<not> 2 * \<bar>int (unat (0 :: size_t)) - int (unat (4294966296 :: size_t))\<bar> \<le> (24000 :: int)
   \<and> bindF (SetTempo 120 48000 (SetQuantize True 4 OverdubLooper_static))
       (QuantizeLoopRegion 4294944000 4294967000) = Inr (4294944000, 72704)
   \<and> \<not> unat (4294944000 :: size_t) \<le> unat (72704 :: size_t)
   \<and> bindF looper_quantized_1000 (QuantizeLoopRegion 0 4294955295) = Inr (0, 1032704)
   \<and> \<not> (24000000 :: nat) dvd unat (1032704 - 0 :: size_t)
   \<and> \<not> (24000000 :: nat) \<le> unat (1032704 - 0 :: size_t)
   \<and> bindF looper_quantized_fast (QuantizeLoopRegion 0 4294967295) = Inr (0, 0)
   \<and> \<not> (4 :: nat) \<le> unat (0 - 0 :: size_t)"
  unfolding looper_quantized_reached looper_quantized_1000_value looper_quantized_fast_value
  by (simp add: QuantizeLoopRegion_def looper_quantized_def OverdubLooper_static_def Let_def
      word_less_nat_alt)

section \<open>Seam crossfade\<close>

lemma nth_blend_step_same:
  "S i < length b \<Longrightarrow> blend_step S E f b i ! S i = crossfade_blend (b ! S i) (b ! E i) (f i)"
  by (simp add: blend_step_def)

lemma nth_blend_step_other: "j \<noteq> S i \<Longrightarrow> blend_step S E f b i ! j = b ! j"
  by (simp add: blend_step_def)

lemma length_blend_step [simp]: "length (blend_step S E f b i) = length b"
  by (simp add: blend_step_def)

lemma length_fold_blend [simp]: "length (foldl (blend_step S E f) b ks) = length b"
  by (induction ks arbitrary: b) simp_all

lemma fold_blend_frame:
  "\<forall>i \<in> set ks. j \<noteq> S i \<Longrightarrow> foldl (blend_step S E f) b ks ! j = b ! j"
  by (induction ks arbitrary: b) (simp_all add: nth_blend_step_other)

lemma fold_blend_closed:
  assumes inj: "\<And>i i'. i < k \<Longrightarrow> i' < k \<Longrightarrow> S i = S i' \<Longrightarrow> i = i'"
    and disj: "\<And>i i'. i < k \<Longrightarrow> i' < k \<Longrightarrow> E i \<noteq> S i'"
    and bound: "\<And>i. i < k \<Longrightarrow> S i < length b"
    and i: "i < k"
  shows "foldl (blend_step S E f) b [0..<k] ! S i = crossfade_blend (b ! S i) (b ! E i) (f i)"
  using assms
proof (induction k arbitrary: i)
  case 0
  then show ?case by simp
next
  case (Suc k)
  let ?bk = "foldl (blend_step S E f) b [0..<k]"
  have fr: "?bk ! j = b ! j" if "\<And>i'. i' < k \<Longrightarrow> j \<noteq> S i'" for j
    using that by (intro fold_blend_frame) simp
  have Sk: "S k < length ?bk" using Suc.prems(3) [of k] by simp
  show ?case
  proof (cases "i = k")
    case True
    have "S k \<noteq> S i'" if "i' < k" for i'
      using Suc.prems(1) [of k i'] that by auto
    then have "?bk ! S k = b ! S k" by (rule fr)
    moreover have "E k \<noteq> S i'" if "i' < k" for i'
      using Suc.prems(2) [of k i'] that by auto
    then have "?bk ! E k = b ! E k" by (rule fr)
    ultimately show ?thesis using True Sk by (simp add: nth_blend_step_same)
  next
    case False
    with Suc.prems(4) have ik: "i < k" by simp
    have ne: "S k \<noteq> S i" using Suc.prems(1) [of k i] ik by auto
    have "?bk ! S i = crossfade_blend (b ! S i) (b ! E i) (f i)"
      using Suc.prems ik by (intro Suc.IH) auto
    with ne show ?thesis by (simp add: nth_blend_step_other)
  qed
qed

lemma crossfade_step_value:
  assumes "buffer_length s \<noteq> 0" and "unat (buffer_length s) \<le> length (buffer s)"
  shows "crossfade_step (of_nat i) s =
           Inr (s\<lparr>buffer := blend_step (start_index s) (end_index s) (fade_at s) (buffer s) i\<rparr>)"
  using assms
  by (simp add: crossfade_step_def Let_def read_buffer_mod_ok write_buffer_mod_ok
      blend_step_def start_index_def end_index_def fade_at_def)

lemma index_fields [simp]:
  "start_index (s\<lparr>buffer := b\<rparr>) = start_index s"
  "end_index (s\<lparr>buffer := b\<rparr>) = end_index s"
  "fade_at (s\<lparr>buffer := b\<rparr>) = fade_at s"
  by (simp_all add: start_index_def end_index_def fade_at_def fun_eq_iff)

lemma crossfade_loop_value:
  assumes "buffer_length s \<noteq> 0" and "unat (buffer_length s) \<le> length (buffer s)"
  shows "crossfade_loop (map of_nat ks) s =
           Inr (s\<lparr>buffer :=
                    foldl (blend_step (start_index s) (end_index s) (fade_at s)) (buffer s) ks\<rparr>)"
  using assms
proof (induction ks arbitrary: s)
  case Nil
  then show ?case by simp
next
  case (Cons k ks)
  let ?s1 = "s\<lparr>buffer := blend_step (start_index s) (end_index s) (fade_at s) (buffer s) k\<rparr>"
  have "buffer_length ?s1 \<noteq> 0" "unat (buffer_length ?s1) \<le> length (buffer ?s1)"
    using Cons.prems by simp_all
  from Cons.IH [OF this] crossfade_step_value [OF Cons.prems, of k]
  show ?case by simp
qed

lemma mod_eq_close:
  fixes x y n :: nat
  assumes "x \<le> y" and "y - x < n" and "x mod n = y mod n"
  shows "x = y"
proof (rule ccontr)
  assume "x \<noteq> y"
  with assms(1) have "0 < y - x" by simp
  from nat_dvd_not_less [OF this assms(2)] mod_eq_dvd_iff_nat [OF assms(1), of n] assms(3)
  show False by simp
qed

lemma unat_small_index:
  "k < 128 \<Longrightarrow> unat (of_nat k :: size_t) = k"
  by (rule of_nat_inverse) simp_all

lemma start_index_nat:
  assumes "k < 128" and "unat (loop_start s) + unat (loop_length s) < 2 ^ 32"
    and "128 \<le> unat (loop_length s)"
  shows "start_index s k = (unat (loop_start s) + k) mod unat (buffer_length s)"
proof -
  have "unat (loop_start s + of_nat k) = unat (loop_start s) + k"
    using assms by (simp add: unat_word_ariths unat_small_index)
  then show ?thesis by (simp add: start_index_def unat_mod)
qed

lemma end_index_nat:
  assumes "k < 128" and "unat (loop_start s) + unat (loop_length s) < 2 ^ 32"
    and "128 \<le> unat (loop_length s)"
  shows "end_index s k
           = (unat (loop_start s) + unat (loop_length s) - 128 + k) mod unat (buffer_length s)"
proof -
  let ?a = "unat (loop_start s)" and ?l = "unat (loop_length s)"
  have 1: "unat (loop_start s + loop_length s) = ?a + ?l"
    using assms(2) by (simp add: unat_word_ariths)
  have "(128 :: size_t) \<le> loop_start s + loop_length s"
    using assms(3) by (simp add: word_le_nat_alt 1)
  then have 2: "unat (loop_start s + loop_length s - 128) = ?a + ?l - 128"
    by (simp add: unat_sub 1)
  have 3: "unat (loop_start s + loop_length s - 128 + of_nat k) = ?a + ?l - 128 + k"
    using assms by (simp add: unat_word_ariths 2 unat_small_index)
  then show ?thesis by (simp add: end_index_def CROSSFADE_SAMPLES_def unat_mod)
qed


lemma crossfade_windows_apart:
  assumes fit: "unat (loop_start s) + unat (loop_length s) < 2 ^ 32"
    and long: "256 \<le> unat (loop_length s)"
    and inside: "unat (loop_length s) \<le> unat (buffer_length s)"
    and i: "i < 128" and i': "i' < 128"
  shows "start_index s i = start_index s i' \<longrightarrow> i = i'" and "end_index s i \<noteq> start_index s i'"
proof -
  let ?a = "unat (loop_start s)" and ?l = "unat (loop_length s)" and ?n = "unat (buffer_length s)"
  have l128: "128 \<le> ?l" using long by simp
  note si = start_index_nat [OF i fit l128] and si' = start_index_nat [OF i' fit l128]
  note ei = end_index_nat [OF i fit l128]
  show "start_index s i = start_index s i' \<longrightarrow> i = i'"
  proof
    assume "start_index s i = start_index s i'"
    then have e: "(?a + i) mod ?n = (?a + i') mod ?n" unfolding si si' .
    show "i = i'"
    proof (cases "i \<le> i'")
      case True
      then have "?a + i \<le> ?a + i'" by simp
      moreover have "?a + i' - (?a + i) < ?n" using i' long inside by linarith
      ultimately have "?a + i = ?a + i'" using e by (rule mod_eq_close)
      then show ?thesis by simp
    next
      case False
      then have "?a + i' \<le> ?a + i" by simp
      moreover have "?a + i - (?a + i') < ?n" using i long inside by linarith
      ultimately have "?a + i' = ?a + i" using e [symmetric] by (rule mod_eq_close)
      then show ?thesis by simp
    qed
  qed
  show "end_index s i \<noteq> start_index s i'"
  proof
    assume "end_index s i = start_index s i'"
    then have e: "(?a + i') mod ?n = (?a + ?l - 128 + i) mod ?n" unfolding si' ei by simp
    have "?a + i' \<le> ?a + ?l - 128 + i" using i' long by linarith
    moreover have "?a + ?l - 128 + i - (?a + i') < ?n" using i long inside by linarith
    ultimately have "?a + i' = ?a + ?l - 128 + i" using e by (rule mod_eq_close)
    with i' long show False by linarith
  qed
qed

lemma start_index_bound:
  "buffer_length s \<noteq> 0 \<Longrightarrow> start_index s i < unat (buffer_length s)"
  by (simp add: start_index_def unat_mod unat_gt_0)

lemma index_fields_rec [simp]:
  "start_index (s\<lparr>is_recording := r\<rparr>) = start_index s"
  "end_index (s\<lparr>is_recording := r\<rparr>) = end_index s"
  "fade_at (s\<lparr>is_recording := r\<rparr>) = fade_at s"
  by (simp_all add: start_index_def end_index_def fade_at_def fun_eq_iff)

lemma fade_at_small:
  "i < 128 \<Longrightarrow> fade_at s i = float_mul (real i) (inv_crossfade_samples s)"
  by (simp add: fade_at_def size_to_float_def unat_small_index float_round_of_nat)

lemma StopRecording_value:
  assumes "\<not> loop_length s < CROSSFADE_SAMPLES * 2" and "buffer_length s \<noteq> 0"
    and "unat (buffer_length s) \<le> length (buffer s)"
  shows "StopRecording s =
           Inr (s\<lparr>is_recording := False,
                   buffer := foldl (blend_step (start_index s) (end_index s) (fade_at s))
                               (buffer s) [0..<128]\<rparr>)"
proof -
  let ?s0 = "s\<lparr>is_recording := False\<rparr>"
  have n128: "unat CROSSFADE_SAMPLES = 128" by (simp add: CROSSFADE_SAMPLES_def)
  have "buffer_length ?s0 \<noteq> 0" "unat (buffer_length ?s0) \<le> length (buffer ?s0)"
    using assms(2,3) by simp_all
  from crossfade_loop_value [OF this, of "[0..<128]"]
  show ?thesis using assms(1) by (simp add: StopRecording_def ApplyCrossfade_def n128)
qed

text \<open>
  Claim C9, as amended. If the region is shorter than twice the crossfade window (256
  samples), \<open>StopRecording\<close> only clears the recording flag: every sample of the buffer is as
  before. Otherwise, on a looper with a non-zero capacity and a memory block at least
  that long, it changes the buffer only at the indices of the first 128 samples of the
  region; every other sample is as before. When the region is no longer than the buffer
  and its start plus its length is a \<open>size_t\<close> value, the \<open>i\<close>-th of those samples becomes
  the blend, computed in \<open>float\<close>, of its old value with weight \<open>fade = i * inv_crossfade_samples\<close>
  and the old value of the \<open>i\<close>-th of the last 128 samples of the region with weight
  \<open>1 - fade\<close>: a linear fade in \<open>i\<close> (\<open>Init\<close> sets the factor to 1/128).
\<close>

theorem StopRecording_crossfade_frame:
  "(loop_length s < CROSSFADE_SAMPLES * 2 \<longrightarrow> StopRecording s = Inr (s\<lparr>is_recording := False\<rparr>))
   \<and> (\<not> loop_length s < CROSSFADE_SAMPLES * 2 \<and> buffer_length s \<noteq> 0
        \<and> unat (buffer_length s) \<le> length (buffer s) \<longrightarrow>
        (\<exists>b. StopRecording s = Inr (s\<lparr>is_recording := False, buffer := b\<rparr>)
           \<and> length b = length (buffer s)
           \<and> (\<forall>j. (\<forall>i<128. j \<noteq> start_index s i) \<longrightarrow> b ! j = buffer s ! j)
           \<and> (unat (loop_length s) \<le> unat (buffer_length s)
                \<and> unat (loop_start s) + unat (loop_length s) < 2 ^ 32 \<longrightarrow>
                (\<forall>i<128.
                   start_index s i = (unat (loop_start s) + i) mod unat (buffer_length s)
                   \<and> end_index s i
                       = (unat (loop_start s) + unat (loop_length s) - 128 + i)
                           mod unat (buffer_length s)
                   \<and> fade_at s i = float_mul (real i) (inv_crossfade_samples s)
                   \<and> b ! start_index s i
                       = crossfade_blend (buffer s ! start_index s i)
                           (buffer s ! end_index s i) (fade_at s i)))))"
proof -
  let ?s0 = "s\<lparr>is_recording := False\<rparr>"
  have short: "StopRecording s = Inr ?s0" if "loop_length s < CROSSFADE_SAMPLES * 2"
    using that by (simp add: StopRecording_def ApplyCrossfade_def)
  have long: "\<exists>b. StopRecording s = Inr (s\<lparr>is_recording := False, buffer := b\<rparr>)
           \<and> length b = length (buffer s)
           \<and> (\<forall>j. (\<forall>i<128. j \<noteq> start_index s i) \<longrightarrow> b ! j = buffer s ! j)
           \<and> (unat (loop_length s) \<le> unat (buffer_length s)
                \<and> unat (loop_start s) + unat (loop_length s) < 2 ^ 32 \<longrightarrow>
                (\<forall>i<128.
                   start_index s i = (unat (loop_start s) + i) mod unat (buffer_length s)
                   \<and> end_index s i
                       = (unat (loop_start s) + unat (loop_length s) - 128 + i)
                           mod unat (buffer_length s)
                   \<and> fade_at s i = float_mul (real i) (inv_crossfade_samples s)
                   \<and> b ! start_index s i
                       = crossfade_blend (buffer s ! start_index s i)
                           (buffer s ! end_index s i) (fade_at s i)))"
    if nshort: "\<not> loop_length s < CROSSFADE_SAMPLES * 2" and bl: "buffer_length s \<noteq> 0"
      and alloc: "unat (buffer_length s) \<le> length (buffer s)"
  proof -
    define b where
      "b = foldl (blend_step (start_index s) (end_index s) (fade_at s)) (buffer s) [0..<128]"
    have run: "StopRecording s = Inr (s\<lparr>is_recording := False, buffer := b\<rparr>)"
      unfolding b_def using nshort bl alloc by (rule StopRecording_value)
    have len: "length b = length (buffer s)" by (simp add: b_def)
    have frame: "b ! j = buffer s ! j" if "\<forall>i<128. j \<noteq> start_index s i" for j
      unfolding b_def using that by (intro fold_blend_frame) simp
    have l256: "256 \<le> unat (loop_length s)"
      using nshort by (simp add: CROSSFADE_SAMPLES_def word_less_nat_alt)
    have closed: "start_index s i = (unat (loop_start s) + i) mod unat (buffer_length s)
                   \<and> end_index s i
                       = (unat (loop_start s) + unat (loop_length s) - 128 + i)
                           mod unat (buffer_length s)
                   \<and> fade_at s i = float_mul (real i) (inv_crossfade_samples s)
                   \<and> b ! start_index s i
                       = crossfade_blend (buffer s ! start_index s i)
                           (buffer s ! end_index s i) (fade_at s i)"
      if inside: "unat (loop_length s) \<le> unat (buffer_length s)"
        and fit: "unat (loop_start s) + unat (loop_length s) < 2 ^ 32" and i: "i < 128" for i
    proof -
      have l128: "128 \<le> unat (loop_length s)" using l256 by simp
      have inj: "\<And>i i'. i < 128 \<Longrightarrow> i' < 128 \<Longrightarrow> start_index s i = start_index s i' \<Longrightarrow> i = i'"
        using crossfade_windows_apart(1) [OF fit l256 inside] by blast
      have disj: "\<And>i i'. i < 128 \<Longrightarrow> i' < 128 \<Longrightarrow> end_index s i \<noteq> start_index s i'"
        using crossfade_windows_apart(2) [OF fit l256 inside] by blast
      have bound: "\<And>i. i < 128 \<Longrightarrow> start_index s i < length (buffer s)"
        using start_index_bound [OF bl] alloc by (meson less_le_trans)
      have "b ! start_index s i
              = crossfade_blend (buffer s ! start_index s i)
                  (buffer s ! end_index s i) (fade_at s i)"
        unfolding b_def using inj disj bound i by (rule fold_blend_closed)
      with start_index_nat [OF i fit l128] end_index_nat [OF i fit l128] fade_at_small [OF i]
      show ?thesis by simp
    qed
    from run len frame closed show ?thesis by blast
  qed
  show ?thesis using short long by blast
qed

lemma looper256_fields:
  "loop_length looper256 = 256" "buffer_length looper256 = 256" "loop_start looper256 = 0"
  "inv_crossfade_samples looper256 = 1 / 128" "length (buffer looper256) = 256"
  by (simp_all add: looper256_def OverdubLooper_static_def)

lemma looper256_nth: "j < 256 \<Longrightarrow> buffer looper256 ! j = real j"
  by (simp add: looper256_def OverdubLooper_static_def)

theorem StopRecording_crossfade_frame_witness:
  "StopRecording OverdubLooper_static = Inr OverdubLooper_static
   \<and> (\<exists>b. StopRecording looper256 = Inr (looper256\<lparr>is_recording := False, buffer := b\<rparr>)
          \<and> length b = 256 \<and> b ! 200 = 200 \<and> b ! 0 = 128)"
proof -
  note v = looper256_fields
  have h0: "loop_length OverdubLooper_static < CROSSFADE_SAMPLES * 2"
    by (simp add: OverdubLooper_static_def CROSSFADE_SAMPLES_def)
  have e0: "OverdubLooper_static\<lparr>is_recording := False\<rparr> = OverdubLooper_static"
    by (simp add: OverdubLooper_static_def)
  from StopRecording_crossfade_frame [of OverdubLooper_static, THEN conjunct1, rule_format, OF h0]
  have a: "StopRecording OverdubLooper_static = Inr OverdubLooper_static"
    by (simp only: e0)
  have h: "\<not> loop_length looper256 < CROSSFADE_SAMPLES * 2 \<and> buffer_length looper256 \<noteq> 0
        \<and> unat (buffer_length looper256) \<le> length (buffer looper256)"
    by (simp add: v CROSSFADE_SAMPLES_def)
  have h2: "unat (loop_length looper256) \<le> unat (buffer_length looper256)
                \<and> unat (loop_start looper256) + unat (loop_length looper256) < 2 ^ 32"
    by (simp add: v)
  from StopRecording_crossfade_frame [of looper256, THEN conjunct2, rule_format, OF h]
  obtain b where run: "StopRecording looper256 = Inr (looper256\<lparr>is_recording := False, buffer := b\<rparr>)"
    and len: "length b = length (buffer looper256)"
    and frame: "\<forall>j. (\<forall>i<128. j \<noteq> start_index looper256 i) \<longrightarrow> b ! j = buffer looper256 ! j"
    and closed: "unat (loop_length looper256) \<le> unat (buffer_length looper256)
                \<and> unat (loop_start looper256) + unat (loop_length looper256) < 2 ^ 32 \<longrightarrow>
                (\<forall>i<128.
                   start_index looper256 i
                     = (unat (loop_start looper256) + i) mod unat (buffer_length looper256)
                   \<and> end_index looper256 i
                       = (unat (loop_start looper256) + unat (loop_length looper256) - 128 + i)
                           mod unat (buffer_length looper256)
                   \<and> fade_at looper256 i = float_mul (real i) (inv_crossfade_samples looper256)
                   \<and> b ! start_index looper256 i
                       = crossfade_blend (buffer looper256 ! start_index looper256 i)
                           (buffer looper256 ! end_index looper256 i) (fade_at looper256 i))"
    by blast
  note c = closed [rule_format, OF h2]
  have si: "start_index looper256 i = i" if "i < 128" for i
    using c [OF that] that by (simp add: v)
  have "\<forall>i<128. (200 :: nat) \<noteq> start_index looper256 i"
    by (simp add: si)
  with frame have "b ! 200 = buffer looper256 ! 200" by blast
  then have b200: "b ! 200 = 200"
    by (simp add: looper256_nth)
  have z: "(0 :: nat) < 128" by simp
  from c [OF z] have b0: "b ! 0 = 128"
    by (clarsimp simp: v looper256_nth crossfade_blend_def float_eval)
  from len have "length b = 256" by (simp add: v)
  with a run b200 b0 show ?thesis by blast
qed

lemma fold_first_two:
  assumes "\<forall>i. Suc (Suc 0) \<le> i \<and> i < k \<longrightarrow> j \<noteq> S i" and "Suc (Suc 0) \<le> k"
  shows "foldl (blend_step S E f) b [0..<k] ! j
           = blend_step S E f (blend_step S E f b 0) (Suc 0) ! j"
proof -
  have "[0..<k] = 0 # Suc 0 # [Suc (Suc 0)..<k]"
    using assms(2) by (simp add: upt_conv_Cons)
  then have "foldl (blend_step S E f) b [0..<k]
               = foldl (blend_step S E f) (blend_step S E f (blend_step S E f b 0) (Suc 0))
                   [Suc (Suc 0)..<k]"
    by simp
  moreover have "\<forall>i \<in> set [Suc (Suc 0)..<k]. j \<noteq> S i" using assms(1) by simp
  ultimately show ?thesis by (simp add: fold_blend_frame)
qed

lemma looper256_long_fields:
  "loop_length looper256_long = 383" "buffer_length looper256_long = 256"
  "loop_start looper256_long = 0" "inv_crossfade_samples looper256_long = 1 / 128"
  "length (buffer looper256_long) = 256" "buffer looper256_long = buffer looper256"
  by (simp_all add: looper256_long_def looper256_def OverdubLooper_static_def)

lemma looper256_long_start: "i < 128 \<Longrightarrow> start_index looper256_long i = i"
  by (simp add: start_index_def looper256_long_fields unat_mod unat_small_index)

lemma looper264_fields:
  "loop_length looper264 = 263" "buffer_length looper264 = 264"
  "loop_start looper264 = 4294967295" "inv_crossfade_samples looper264 = 1 / 128"
  "length (buffer looper264) = 264"
  by (simp_all add: looper264_def OverdubLooper_static_def)

lemma looper264_nth: "j < 264 \<Longrightarrow> buffer looper264 ! j = real j"
  by (simp add: looper264_def OverdubLooper_static_def)

lemma looper264_start: "0 < i \<Longrightarrow> i < 128 \<Longrightarrow> start_index looper264 i = i - 1"
proof -
  assume i: "0 < i" "i < 128"
  have "(4294967295 :: size_t) + of_nat i = of_nat (i - 1)"
    using i(1) by (cases i) simp_all
  moreover have "unat (of_nat (i - 1) :: size_t) = i - 1"
    using i(2) by (intro unat_small_index) simp
  ultimately show ?thesis
    using i(2) by (simp add: start_index_def looper264_fields unat_mod)
qed

text \<open>
  The claim as stated fails when the two windows share buffer samples, because the loop
  blends in place. With a region of 383 samples on a buffer of 256, the second sample of
  the region is blended with the first, which the first iteration has already replaced
  by 255: it becomes \<open>16193/64\<close>, where the blend of the two old samples is \<open>1/128\<close>. With
  a region of 263 samples starting at \<open>2^32 - 1\<close> on a buffer of 264, the indices wrap
  around: the second sample of the region (index 0) is blended with the sample at index
  135, which is the first sample of the region and already replaced by 134: it becomes
  \<open>8509/64\<close>, where the blend of the two old samples is \<open>17145/128\<close>. And on the static
  looper, whose capacity is zero, the index computation divides by zero.
\<close>

theorem StopRecording_overlap_counterexample:
  "start_index looper256_long 1 = 1 \<and> end_index looper256_long 1 = 0
   \<and> map_sum id (\<lambda>s. buffer s ! 1) (StopRecording looper256_long) = Inr (16193 / 64)
   \<and> crossfade_blend (buffer looper256_long ! 1) (buffer looper256_long ! 0)
        (fade_at looper256_long 1) = 1 / 128
   \<and> start_index looper264 1 = 0 \<and> end_index looper264 1 = 135
   \<and> map_sum id (\<lambda>s. buffer s ! 0) (StopRecording looper264) = Inr (8509 / 64)
   \<and> crossfade_blend (buffer looper264 ! 0) (buffer looper264 ! 135)
        (fade_at looper264 1) = 17145 / 128
   \<and> StopRecording (SetLoopRegion 0 255 OverdubLooper_static) = Inl DivByZero"
proof -
  note v = looper256_long_fields(1-5) and w = looper264_fields
  note fe = crossfade_blend_def float_eval float_round_fractions
  have n: "buffer looper256_long ! j = real j" if "j < 256" for j
    using that by (simp add: looper256_long_fields(6) looper256_nth)
  have idx: "start_index looper256_long 0 = 0" "start_index looper256_long (Suc 0) = 1"
    "end_index looper256_long 0 = 255" "end_index looper256_long (Suc 0) = 0"
    by (simp_all add: start_index_def end_index_def v CROSSFADE_SAMPLES_def)
  have fd: "fade_at looper256_long 0 = 0" "fade_at looper256_long (Suc 0) = 1 / 128"
    by (simp_all add: fade_at_def v fe)
  have r1: "StopRecording looper256_long =
           Inr (looper256_long\<lparr>is_recording := False,
                   buffer := foldl (blend_step (start_index looper256_long)
                                      (end_index looper256_long) (fade_at looper256_long))
                               (buffer looper256_long) [0..<128]\<rparr>)"
    by (rule StopRecording_value) (simp_all add: v CROSSFADE_SAMPLES_def)
  have "foldl (blend_step (start_index looper256_long) (end_index looper256_long)
                 (fade_at looper256_long)) (buffer looper256_long) [0..<128] ! 1
          = blend_step (start_index looper256_long) (end_index looper256_long)
              (fade_at looper256_long)
              (blend_step (start_index looper256_long) (end_index looper256_long)
                 (fade_at looper256_long) (buffer looper256_long) 0) (Suc 0) ! 1"
    by (rule fold_first_two) (simp_all add: looper256_long_start)
  also have "\<dots> = 16193 / 64"
    by (simp add: blend_step_def idx fd n v fe)
  finally have a: "map_sum id (\<lambda>s. buffer s ! 1) (StopRecording looper256_long) = Inr (16193 / 64)"
    by (simp add: r1)
  have b: "crossfade_blend (buffer looper256_long ! 1) (buffer looper256_long ! 0)
             (fade_at looper256_long 1) = 1 / 128"
    by (simp add: fd(2) n fe)
  have idx2: "start_index looper264 0 = 135" "start_index looper264 (Suc 0) = 0"
    "end_index looper264 0 = 134" "end_index looper264 (Suc 0) = 135"
    by (simp_all add: start_index_def end_index_def w CROSSFADE_SAMPLES_def)
  have fd2: "fade_at looper264 0 = 0" "fade_at looper264 (Suc 0) = 1 / 128"
    by (simp_all add: fade_at_def w fe)
  have r2: "StopRecording looper264 =
           Inr (looper264\<lparr>is_recording := False,
                   buffer := foldl (blend_step (start_index looper264)
                                      (end_index looper264) (fade_at looper264))
                               (buffer looper264) [0..<128]\<rparr>)"
    by (rule StopRecording_value) (simp_all add: w CROSSFADE_SAMPLES_def)
  have "foldl (blend_step (start_index looper264) (end_index looper264)
                 (fade_at looper264)) (buffer looper264) [0..<128] ! 0
          = blend_step (start_index looper264) (end_index looper264) (fade_at looper264)
              (blend_step (start_index looper264) (end_index looper264)
                 (fade_at looper264) (buffer looper264) 0) (Suc 0) ! 0"
    by (rule fold_first_two) (simp_all add: looper264_start)
  also have "\<dots> = 8509 / 64"
    by (simp add: blend_step_def idx2 fd2 looper264_nth w fe)
  finally have c: "map_sum id (\<lambda>s. buffer s ! 0) (StopRecording looper264) = Inr (8509 / 64)"
    by (simp add: r2)
  have d: "crossfade_blend (buffer looper264 ! 0) (buffer looper264 ! 135)
             (fade_at looper264 1) = 17145 / 128"
    by (simp add: fd2(2) looper264_nth fe)
  have e: "StopRecording (SetLoopRegion 0 255 OverdubLooper_static) = Inl DivByZero"
    by (simp add: StopRecording_def ApplyCrossfade_def CROSSFADE_SAMPLES_def
        SetLoopRegion_def OverdubLooper_static_def Let_def crossfade_step_def
        upt_conv_Cons [of 0 128] word_less_nat_alt)
  from idx(2,4) idx2(2,4) a b c d e show ?thesis by simp
qed

end
